theory Spec2Isabelle
  imports Complex_Main "HOL-Library.Word"
begin

unbundle bit_operations_syntax

section \<open>Bytes and little-endian integers\<close>

text \<open>
  The bytecode is a Go \<^verbatim>\<open>[]byte\<close>. Integers in it are written and read with
  \<^verbatim>\<open>binary.LittleEndian\<close>: \<^verbatim>\<open>Uint32(b)\<close> is
  \<^verbatim>\<open>uint32(b[0]) | uint32(b[1])<<8 | uint32(b[2])<<16 | uint32(b[3])<<24\<close>,
  and \<^verbatim>\<open>PutUint32\<close> stores the four bytes of its argument, lowest first.
\<close>

type_synonym byte = "8 word"

definition PutUint32 :: "32 word \<Rightarrow> byte list" where
  "PutUint32 w = [ucast w, ucast (drop_bit 8 w), ucast (drop_bit 16 w), ucast (drop_bit 24 w)]"

definition Uint32 :: "byte list \<Rightarrow> 32 word" where
  "Uint32 b = (ucast (b ! 0)) OR push_bit 8 (ucast (b ! 1)) OR push_bit 16 (ucast (b ! 2))
                OR push_bit 24 (ucast (b ! 3))"

definition PutUint64 :: "64 word \<Rightarrow> byte list" where
  "PutUint64 w = [ucast w, ucast (drop_bit 8 w), ucast (drop_bit 16 w), ucast (drop_bit 24 w),
                  ucast (drop_bit 32 w), ucast (drop_bit 40 w), ucast (drop_bit 48 w),
                  ucast (drop_bit 56 w)]"

definition Uint64 :: "byte list \<Rightarrow> 64 word" where
  "Uint64 b = (ucast (b ! 0)) OR push_bit 8 (ucast (b ! 1)) OR push_bit 16 (ucast (b ! 2))
                OR push_bit 24 (ucast (b ! 3)) OR push_bit 32 (ucast (b ! 4))
                OR push_bit 40 (ucast (b ! 5)) OR push_bit 48 (ucast (b ! 6))
                OR push_bit 56 (ucast (b ! 7))"

section \<open>The float64 of the value model\<close>

text \<open>
  A Go \<^verbatim>\<open>float64\<close> is an IEEE 754 binary64 value. It is modelled by its 64-bit
  pattern (\<^verbatim>\<open>math.Float64frombits\<close> is then the identity): bit 63 is the sign, bits
  52 to 62 the biased exponent, bits 0 to 51 the fraction. A finite pattern with exponent
  field \<open>e\<close> and fraction \<open>f\<close> denotes \<open>f64_mant * 2 ^ f64_exp2\<close>, with the hidden bit
  present unless \<open>e = 0\<close>. The arithmetic of Go is the exact result rounded to the nearest
  representable value, ties to the even mantissa.
\<close>

type_synonym float64 = "64 word"

definition f64_sign :: "float64 \<Rightarrow> bool" where
  "f64_sign w = bit w 63"

definition f64_expo :: "float64 \<Rightarrow> nat" where
  "f64_expo w = unat (take_bit 11 (drop_bit 52 w))"

definition f64_frac :: "float64 \<Rightarrow> nat" where
  "f64_frac w = unat (take_bit 52 w)"

definition f64_isNaN :: "float64 \<Rightarrow> bool" where
  "f64_isNaN w = (f64_expo w = 2047 \<and> f64_frac w \<noteq> 0)"

definition f64_isInf :: "float64 \<Rightarrow> bool" where
  "f64_isInf w = (f64_expo w = 2047 \<and> f64_frac w = 0)"

definition f64_mant :: "float64 \<Rightarrow> nat" where
  "f64_mant w = (if f64_expo w = 0 then f64_frac w else 2 ^ 52 + f64_frac w)"

definition f64_exp2 :: "float64 \<Rightarrow> int" where
  "f64_exp2 w = int (max (f64_expo w) 1) - 1075"

text \<open>
  Which NaN an operation returns (its sign and payload) depends on the processor. The
  model returns one fixed pattern; the machine never looks at the bits of a NaN, only
  compares it, and every NaN compares alike.
\<close>

definition f64_NaN :: float64 where
  "f64_NaN = 0x7FF8000000000001"

definition f64_Inf :: "bool \<Rightarrow> float64" where
  "f64_Inf neg = (if neg then 0xFFF0000000000000 else 0x7FF0000000000000)"

definition f64_Zero :: "bool \<Rightarrow> float64" where
  "f64_Zero neg = (if neg then 0x8000000000000000 else 0)"

definition f64_neg :: "float64 \<Rightarrow> float64" where
  "f64_neg w = w XOR 0x8000000000000000"

fun bitlen :: "nat \<Rightarrow> nat" where
  "bitlen n = (if n = 0 then 0 else Suc (bitlen (n div 2)))"

declare bitlen.simps [simp del]

text \<open>\<open>rne p q\<close> is the integer nearest to \<open>p / q\<close>, the even one at a tie.\<close>

definition rne :: "nat \<Rightarrow> nat \<Rightarrow> nat" where
  "rne p q = (let n = p div q; r = p mod q
              in if 2 * r < q then n
                 else if q < 2 * r then n + 1
                 else if even n then n else n + 1)"

text \<open>
  \<open>f64_round neg p q e\<close> is the float64 nearest to \<open>(p / q) * 2 ^ e\<close> (with \<open>0 < q\<close>),
  negated when \<open>neg\<close>. With \<open>l\<close> the binary logarithm of \<open>p / q\<close> rounded down, the
  result's quantum is \<open>2 ^ qe\<close> where \<open>qe = max (e + l - 52) (-1074)\<close>; the exponent field
  and the fraction of the result are read off \<open>(qe + 1074) * 2 ^ 52 + m\<close>, \<open>m\<close> being the
  rounded number of quanta, and a result beyond the largest finite value is an infinity.
\<close>

definition f64_round :: "bool \<Rightarrow> nat \<Rightarrow> nat \<Rightarrow> int \<Rightarrow> float64" where
  "f64_round neg p q e =
     (if p = 0 then f64_Zero neg
      else
        let t = int (bitlen p) - int (bitlen q);
            l = (if 0 \<le> t then (if q * 2 ^ nat t \<le> p then t else t - 1)
                 else (if q \<le> p * 2 ^ nat (- t) then t else t - 1));
            qe = max (e + l - 52) (- 1074);
            s = qe - e;
            m = (if 0 \<le> s then rne p (q * 2 ^ nat s) else rne (p * 2 ^ nat (- s)) q);
            b = nat (qe + 1074) * 2 ^ 52 + m
        in if 2047 * 2 ^ 52 \<le> b then f64_Inf neg
           else (if neg then 0x8000000000000000 else 0) + word_of_nat b)"

text \<open>The signed numerator of two finite values over their common quantum.\<close>

definition f64_num :: "float64 \<Rightarrow> int \<Rightarrow> int" where
  "f64_num w e = (if f64_sign w then - 1 else 1) * int (f64_mant w * 2 ^ nat (f64_exp2 w - e))"

definition f64_add :: "float64 \<Rightarrow> float64 \<Rightarrow> float64" where
  "f64_add a b =
     (if f64_isNaN a \<or> f64_isNaN b then f64_NaN
      else if f64_isInf a then (if f64_isInf b \<and> f64_sign a \<noteq> f64_sign b then f64_NaN else a)
      else if f64_isInf b then b
      else if f64_mant a = 0 \<and> f64_mant b = 0 then f64_Zero (f64_sign a \<and> f64_sign b)
      else if f64_mant a = 0 then b
      else if f64_mant b = 0 then a
      else
        let e = min (f64_exp2 a) (f64_exp2 b);
            x = f64_num a e + f64_num b e
        in if x = 0 then f64_Zero False
           else f64_round (x < 0) (nat \<bar>x\<bar>) 1 e)"

definition f64_sub :: "float64 \<Rightarrow> float64 \<Rightarrow> float64" where
  "f64_sub a b = (if f64_isNaN b then f64_NaN else f64_add a (f64_neg b))"

definition f64_mul :: "float64 \<Rightarrow> float64 \<Rightarrow> float64" where
  "f64_mul a b =
     (let neg = (f64_sign a \<noteq> f64_sign b)
      in if f64_isNaN a \<or> f64_isNaN b then f64_NaN
         else if f64_isInf a \<or> f64_isInf b then
           (if (\<not> f64_isInf a \<and> f64_mant a = 0) \<or> (\<not> f64_isInf b \<and> f64_mant b = 0)
            then f64_NaN else f64_Inf neg)
         else f64_round neg (f64_mant a * f64_mant b) 1 (f64_exp2 a + f64_exp2 b))"

definition f64_div :: "float64 \<Rightarrow> float64 \<Rightarrow> float64" where
  "f64_div a b =
     (let neg = (f64_sign a \<noteq> f64_sign b)
      in if f64_isNaN a \<or> f64_isNaN b then f64_NaN
         else if f64_isInf a then (if f64_isInf b then f64_NaN else f64_Inf neg)
         else if f64_isInf b then f64_Zero neg
         else if f64_mant b = 0 then (if f64_mant a = 0 then f64_NaN else f64_Inf neg)
         else f64_round neg (f64_mant a) (f64_mant b) (f64_exp2 a - f64_exp2 b))"

text \<open>
  \<^verbatim>\<open>math.Mod(x, y)\<close>: NaN when \<open>y = 0\<close>, \<open>x\<close> is infinite or either is NaN; \<open>x\<close> when
  \<open>y\<close> is infinite; otherwise the exact remainder of \<open>|x|\<close> by \<open>|y|\<close>, with the sign of
  \<open>x\<close>.
\<close>

definition f64_mod :: "float64 \<Rightarrow> float64 \<Rightarrow> float64" where
  "f64_mod x y =
     (if f64_isNaN x \<or> f64_isNaN y \<or> f64_isInf x \<or> (\<not> f64_isInf y \<and> f64_mant y = 0)
      then f64_NaN
      else if f64_isInf y then x
      else
        let e = min (f64_exp2 x) (f64_exp2 y);
            r = (f64_mant x * 2 ^ nat (f64_exp2 x - e)) mod (f64_mant y * 2 ^ nat (f64_exp2 y - e))
        in f64_round (f64_sign x) r 1 e)"

text \<open>
  Comparison: on values that are not NaN the order of the magnitudes is the order of the
  low 63 bits, and the two zeros are equal; every comparison with a NaN is false but
  \<^verbatim>\<open>!=\<close>.
\<close>

definition f64_key :: "float64 \<Rightarrow> int" where
  "f64_key w = (if f64_sign w then - uint (take_bit 63 w) else uint (take_bit 63 w))"

definition f64_eq :: "float64 \<Rightarrow> float64 \<Rightarrow> bool" where
  "f64_eq a b = (\<not> f64_isNaN a \<and> \<not> f64_isNaN b \<and> f64_key a = f64_key b)"

definition f64_lt :: "float64 \<Rightarrow> float64 \<Rightarrow> bool" where
  "f64_lt a b = (\<not> f64_isNaN a \<and> \<not> f64_isNaN b \<and> f64_key a < f64_key b)"

definition f64_le :: "float64 \<Rightarrow> float64 \<Rightarrow> bool" where
  "f64_le a b = (\<not> f64_isNaN a \<and> \<not> f64_isNaN b \<and> f64_key a \<le> f64_key b)"

definition f64_of_nat :: "nat \<Rightarrow> float64" where
  "f64_of_nat n = f64_round False n 1 0"

text \<open>
  The conversion \<^verbatim>\<open>int(f)\<close> truncates towards zero. Where the result does not fit
  (NaN, an infinity, a magnitude of \<open>2 ^ 63\<close> or more) Go leaves the value to the
  implementation; the model takes amd64's \<open>- 2 ^ 63\<close>.
\<close>

definition f64_to_int :: "float64 \<Rightarrow> int" where
  "f64_to_int w =
     (if f64_expo w = 2047 then - (2 ^ 63)
      else
        let m = int (f64_mant w);
            t = (if 0 \<le> f64_exp2 w then m * 2 ^ nat (f64_exp2 w) else m div 2 ^ nat (- f64_exp2 w));
            v = (if f64_sign w then - t else t)
        in if - (2 ^ 63) \<le> v \<and> v < 2 ^ 63 then v else - (2 ^ 63))"

definition boolToFloat :: "bool \<Rightarrow> float64" where
  "boolToFloat b = (if b then 0x3FF0000000000000 else 0)"


text \<open>The length of a binary numeral, for evaluating \<open>bitlen\<close> on literals.\<close>

fun num_len :: "num \<Rightarrow> nat" where
  "num_len num.One = 1"
| "num_len (num.Bit0 k) = 1 + num_len k"
| "num_len (num.Bit1 k) = 1 + num_len k"

section \<open>Values and panics\<close>

text \<open>
  A constant or stack slot is a Go \<^verbatim>\<open>interface{}\<close> holding a \<^verbatim>\<open>float64\<close>, a
  \<^verbatim>\<open>string\<close> or an \<^verbatim>\<open>int\<close>. A Go string is a sequence of bytes, as is a HOL
  string. Go's \<^verbatim>\<open>int\<close> is taken to be 64 bits wide, so the conversion from
  \<^verbatim>\<open>uint32\<close> keeps the unsigned value.
\<close>

datatype Value = Number float64 | Text string | Integer int

text \<open>
  Every failure of the code is a panic that ends the compilation or the run. The panics
  the code raises itself carry a message; \<open>IndexOutOfRange\<close>, \<open>SliceBounds\<close> and
  \<open>TypeAssertion\<close> are the panics of the Go runtime.
\<close>

datatype error =
    InvalidHeader
  | UnsupportedVersion byte
  | UnknownConstType
  | IndexOutOfRange
  | SliceBounds
  | StackUnderflow
  | TypeAssertion
  | UnknownOpcode byte
  | UnknownFunction int
  | UnknownUnaryOperator string
  | UnknownBinaryOperator string
  | MemberAccessNotImplemented

text \<open>The comparison \<^verbatim>\<open>a == b\<close> of two interface values.\<close>

fun valueEq :: "Value \<Rightarrow> Value \<Rightarrow> bool" where
  "valueEq (Number a) (Number b) = f64_eq a b"
| "valueEq (Text a) (Text b) = (a = b)"
| "valueEq (Integer a) (Integer b) = (a = b)"
| "valueEq _ _ = False"

section \<open>The virtual machine\<close>

text \<open>
  \<^verbatim>\<open>vm.constants\<close> and \<^verbatim>\<open>frame.consts\<close> are slices on constant arrays that
  \<^verbatim>\<open>OP_STORE\<close> mutates, so a pool is a reference into the store \<open>pools\<close>, which is part
  of the machine state. The code is never written to and is held by value. \<^verbatim>\<open>ip\<close>
  and \<^verbatim>\<open>sp\<close> are Go ints.
\<close>

type_synonym ref = nat

record Frame =
  ipBackup :: int
  spBackup :: int
  fcode :: "byte list"
  fconsts :: ref

record VM =
  constants :: ref
  code :: "byte list"
  ip :: int
  sp :: int
  stack :: "Value list"
  callStack :: "Frame list"
  pools :: "ref \<Rightarrow> Value list"

definition push :: "Value \<Rightarrow> VM \<Rightarrow> VM" where
  "push v vm = vm\<lparr>stack := stack vm @ [v], sp := sp vm + 1\<rparr>"

definition pop :: "VM \<Rightarrow> error + (Value \<times> VM)" where
  "pop vm =
     (if sp vm = 0 then Inl StackUnderflow
      else
        let sp' = sp vm - 1
        in if sp' < 0 \<or> int (length (stack vm)) \<le> sp' then Inl IndexOutOfRange
           else Inr (stack vm ! nat sp', vm\<lparr>sp := sp', stack := take (nat sp') (stack vm)\<rparr>))"

text \<open>
  \<^verbatim>\<open>readInt\<close>: the slice \<^verbatim>\<open>vm.code[vm.ip:]\<close> needs \<open>ip \<le> len\<close>, and
  \<^verbatim>\<open>Uint32\<close> four bytes in it.
\<close>

definition readInt :: "VM \<Rightarrow> error + (int \<times> VM)" where
  "readInt vm =
     (if ip vm < 0 \<or> int (length (code vm)) < ip vm then Inl SliceBounds
      else if int (length (code vm)) - ip vm < 4 then Inl IndexOutOfRange
      else Inr (uint (Uint32 (drop (nat (ip vm)) (code vm))), vm\<lparr>ip := ip vm + 4\<rparr>))"

text \<open>The type assertion \<^verbatim>\<open>.(float64)\<close> on a popped value.\<close>

definition popFloat :: "VM \<Rightarrow> error + (float64 \<times> VM)" where
  "popFloat vm =
     (case pop vm of
        Inl e \<Rightarrow> Inl e
      | Inr (v, vm') \<Rightarrow> (case v of Number f \<Rightarrow> Inr (f, vm') | _ \<Rightarrow> Inl TypeAssertion))"

text \<open>
  The opcodes from \<^verbatim>\<open>OP_ADD\<close> to \<^verbatim>\<open>OP_OR\<close> but the two equalities share one
  shape: \<^verbatim>\<open>b := vm.pop().(float64); a := vm.pop().(float64); vm.push(f(a, b))\<close>.
\<close>

definition binaryFloat :: "(float64 \<Rightarrow> float64 \<Rightarrow> float64) \<Rightarrow> VM \<Rightarrow> error + VM" where
  "binaryFloat f vm =
     (case popFloat vm of
        Inl e \<Rightarrow> Inl e
      | Inr (b, vm1) \<Rightarrow>
          (case popFloat vm1 of
             Inl e \<Rightarrow> Inl e
           | Inr (a, vm2) \<Rightarrow> Inr (push (Number (f a b)) vm2)))"

definition binaryValue :: "(Value \<Rightarrow> Value \<Rightarrow> bool) \<Rightarrow> VM \<Rightarrow> error + VM" where
  "binaryValue f vm =
     (case pop vm of
        Inl e \<Rightarrow> Inl e
      | Inr (b, vm1) \<Rightarrow>
          (case pop vm1 of
             Inl e \<Rightarrow> Inl e
           | Inr (a, vm2) \<Rightarrow> Inr (push (Number (boolToFloat (f a b))) vm2)))"

text \<open>
  The loop of \<^verbatim>\<open>callFunction\<close> that pushes \<^verbatim>\<open>vm.stack[frame.spBackup+i]\<close> for
  \<open>i\<close> from its second argument on, the third counting the iterations left.
\<close>

fun pushArgs :: "int \<Rightarrow> int \<Rightarrow> nat \<Rightarrow> VM \<Rightarrow> error + VM" where
  "pushArgs base i 0 vm = Inr vm"
| "pushArgs base i (Suc k) vm =
     (if base + i < 0 \<or> int (length (stack vm)) \<le> base + i then Inl IndexOutOfRange
      else pushArgs base (i + 1) k (push (stack vm ! nat (base + i)) vm))"

text \<open>
  \<^verbatim>\<open>loadFunction\<close> is not part of the sources at hand: it is the parameter \<open>lf\<close>,
  which gives a function identifier its code and its constant pool, or panics.
\<close>

type_synonym loader = "int \<Rightarrow> error + (byte list \<times> ref)"

definition callFunction :: "loader \<Rightarrow> int \<Rightarrow> int \<Rightarrow> VM \<Rightarrow> error + VM" where
  "callFunction lf fnID argCount vm =
     (case lf fnID of
        Inl e \<Rightarrow> Inl e
      | Inr (fnCode, fnConsts) \<Rightarrow>
          let frame = \<lparr>ipBackup = ip vm, spBackup = sp vm - argCount,
                       fcode = code vm, fconsts = constants vm\<rparr>
          in pushArgs (spBackup frame) 0 (nat argCount)
               (vm\<lparr>callStack := callStack vm @ [frame], code := fnCode,
                    constants := fnConsts, ip := 0, sp := 0\<rparr>))"

definition returnFromFunction :: "VM \<Rightarrow> error + VM" where
  "returnFromFunction vm =
     (case pop vm of
        Inl e \<Rightarrow> Inl e
      | Inr (ret, vm1) \<Rightarrow>
          (if callStack vm1 = [] then Inl IndexOutOfRange
           else
             let frame = last (callStack vm1)
             in Inr (push ret
                  (vm1\<lparr>callStack := butlast (callStack vm1), code := fcode frame,
                        constants := fconsts frame, ip := ipBackup frame,
                        sp := spBackup frame\<rparr>))))"

text \<open>
  One turn of the loop of \<^verbatim>\<open>Run\<close>, taken when \<open>ip < len(code)\<close>: the machine goes on,
  or \<^verbatim>\<open>Run\<close> returns a value (\<open>None\<close> for \<^verbatim>\<open>nil\<close>).
\<close>

datatype outcome = Continue VM | Return "Value option" VM

text \<open>The read \<^verbatim>\<open>vm.constants[idx]\<close> of the active pool.\<close>

definition constAt :: "VM \<Rightarrow> int \<Rightarrow> error + Value" where
  "constAt vm idx =
     (if idx < 0 \<or> int (length (pools vm (constants vm))) \<le> idx then Inl IndexOutOfRange
      else Inr (pools vm (constants vm) ! nat idx))"

definition step :: "loader \<Rightarrow> VM \<Rightarrow> error + outcome" where
  "step lf vm0 =
     (if ip vm0 < 0 \<or> int (length (code vm0)) \<le> ip vm0 then Inl IndexOutOfRange
      else
        let op = code vm0 ! nat (ip vm0);
            vm = vm0\<lparr>ip := ip vm0 + 1\<rparr>;
            continue = (\<lambda>r. case r of Inl e \<Rightarrow> Inl e | Inr vm' \<Rightarrow> Inr (Continue vm'))
        in
        if op = 0x01 then
          (case readInt vm of
             Inl e \<Rightarrow> Inl e
           | Inr (idx, vm1) \<Rightarrow>
               (case constAt vm1 idx of
                  Inl e \<Rightarrow> Inl e
                | Inr v \<Rightarrow> Inr (Continue (push v vm1))))
        else if op = 0x02 then continue (binaryFloat f64_add vm)
        else if op = 0x03 then continue (binaryFloat f64_sub vm)
        else if op = 0x04 then continue (binaryFloat f64_mul vm)
        else if op = 0x05 then continue (binaryFloat f64_div vm)
        else if op = 0x06 then continue (binaryFloat f64_mod vm)
        else if op = 0x07 then continue (binaryValue valueEq vm)
        else if op = 0x08 then continue (binaryValue (\<lambda>a b. \<not> valueEq a b) vm)
        else if op = 0x09 then continue (binaryFloat (\<lambda>a b. boolToFloat (f64_lt a b)) vm)
        else if op = 0x0A then continue (binaryFloat (\<lambda>a b. boolToFloat (f64_lt b a)) vm)
        else if op = 0x0B then continue (binaryFloat (\<lambda>a b. boolToFloat (f64_le a b)) vm)
        else if op = 0x0C then continue (binaryFloat (\<lambda>a b. boolToFloat (f64_le b a)) vm)
        else if op = 0x0D then
          continue (binaryFloat (\<lambda>a b. boolToFloat (\<not> f64_eq a 0 \<and> \<not> f64_eq b 0)) vm)
        else if op = 0x0E then
          continue (binaryFloat (\<lambda>a b. boolToFloat (\<not> f64_eq a 0 \<or> \<not> f64_eq b 0)) vm)
        else if op = 0x0F then
          (case popFloat vm of
             Inl e \<Rightarrow> Inl e
           | Inr (a, vm1) \<Rightarrow> Inr (Continue (push (Number (boolToFloat (f64_eq a 0))) vm1)))
        else if op = 0x10 then
          (case readInt vm of
             Inl e \<Rightarrow> Inl e
           | Inr (idx, vm1) \<Rightarrow>
               (case constAt vm1 idx of
                  Inl e \<Rightarrow> Inl e
                | Inr v \<Rightarrow> Inr (Continue (push v vm1))))
        else if op = 0x11 then
          (case readInt vm of
             Inl e \<Rightarrow> Inl e
           | Inr (idx, vm1) \<Rightarrow>
               (case pop vm1 of
                  Inl e \<Rightarrow> Inl e
                | Inr (val, vm2) \<Rightarrow>
                    (if idx < 0 \<or> int (length (pools vm2 (constants vm2))) \<le> idx
                     then Inl IndexOutOfRange
                     else Inr (Continue (vm2\<lparr>pools := (pools vm2)
                            (constants vm2 := (pools vm2 (constants vm2))[nat idx := val])\<rparr>)))))
        else if op = 0x12 then
          (case readInt vm of
             Inl e \<Rightarrow> Inl e
           | Inr (argCount, vm1) \<Rightarrow>
               (case popFloat vm1 of
                  Inl e \<Rightarrow> Inl e
                | Inr (f, vm2) \<Rightarrow> continue (callFunction lf (f64_to_int f) argCount vm2)))
        else if op = 0x13 then
          (if callStack vm = [] then
             (case pop vm of
                Inl e \<Rightarrow> Inl e
              | Inr (v, vm1) \<Rightarrow> Inr (Return (Some v) vm1))
           else continue (returnFromFunction vm))
        else if op = 0x14 then
          (case readInt vm of
             Inl e \<Rightarrow> Inl e
           | Inr (target, vm1) \<Rightarrow> Inr (Continue (vm1\<lparr>ip := target\<rparr>)))
        else if op = 0x15 then
          (case readInt vm of
             Inl e \<Rightarrow> Inl e
           | Inr (target, vm1) \<Rightarrow>
               (case popFloat vm1 of
                  Inl e \<Rightarrow> Inl e
                | Inr (cond, vm2) \<Rightarrow>
                    Inr (Continue (if f64_eq cond 0 then vm2\<lparr>ip := target\<rparr> else vm2))))
        else if op = 0x16 then
          (case pop vm of Inl e \<Rightarrow> Inl e | Inr (v, vm1) \<Rightarrow> Inr (Continue vm1))
        else if op = 0x17 then Inr (Return None vm)
        else Inl (UnknownOpcode op))"

text \<open>
  \<^verbatim>\<open>Run\<close> with fuel: \<open>None\<close> when the loop has not ended within the given number of
  turns, otherwise the panic or the value returned together with the final machine.
\<close>

fun Run :: "loader \<Rightarrow> nat \<Rightarrow> VM \<Rightarrow> (error + (Value option \<times> VM)) option" where
  "Run lf 0 vm = None"
| "Run lf (Suc n) vm =
     (if ip vm < int (length (code vm)) then
        (case step lf vm of
           Inl e \<Rightarrow> Some (Inl e)
         | Inr (Continue vm') \<Rightarrow> Run lf n vm'
         | Inr (Return r vm') \<Rightarrow> Some (Inr (r, vm')))
      else Some (Inr (None, vm)))"


text \<open>
  The first \<open>n\<close> turns of the loop of \<^verbatim>\<open>Run\<close>, to look at the machine on its way:
  the machine after them, or the value \<^verbatim>\<open>Run\<close> has returned by then.
\<close>

fun steps :: "loader \<Rightarrow> nat \<Rightarrow> VM \<Rightarrow> error + outcome" where
  "steps lf 0 vm = Inr (Continue vm)"
| "steps lf (Suc n) vm =
     (if ip vm < int (length (code vm)) then
        (case step lf vm of
           Inl e \<Rightarrow> Inl e
         | Inr (Continue vm') \<Rightarrow> steps lf n vm'
         | Inr (Return r vm') \<Rightarrow> Inr (Return r vm'))
      else Inr (Return None vm))"

section \<open>The module loader\<close>

text \<open>
  The argument of \<^verbatim>\<open>loadModule\<close> is a Go slice: its elements, and the spare capacity of
  its backing array behind them. Go checks an index \<^verbatim>\<open>code[i]\<close> and the bound of
  \<^verbatim>\<open>code[lo:]\<close> against the length, and the upper bound of a two-index slice expression
  \<^verbatim>\<open>code[lo:hi]\<close> against the capacity. Offsets are never negative and are natural
  numbers here.
\<close>

type_synonym slice = "byte list \<times> byte list"

definition indexAt :: "slice \<Rightarrow> nat \<Rightarrow> error + byte" where
  "indexAt c i = (if i < length (fst c) then Inr (fst c ! i) else Inl IndexOutOfRange)"

definition sliceRange :: "slice \<Rightarrow> nat \<Rightarrow> nat \<Rightarrow> error + byte list" where
  "sliceRange c lo hi =
     (if hi < lo \<or> length (fst c) + length (snd c) < hi then Inl SliceBounds
      else Inr (take (hi - lo) (drop lo (fst c @ snd c))))"

definition readUint32 :: "slice \<Rightarrow> nat \<Rightarrow> error + 32 word" where
  "readUint32 c off =
     (if length (fst c) < off then Inl SliceBounds
      else if length (fst c) - off < 4 then Inl IndexOutOfRange
      else Inr (Uint32 (drop off (fst c))))"

definition readUint64 :: "slice \<Rightarrow> nat \<Rightarrow> error + 64 word" where
  "readUint64 c off =
     (if length (fst c) < off then Inl SliceBounds
      else if length (fst c) - off < 8 then Inl IndexOutOfRange
      else Inr (Uint64 (drop off (fst c))))"

text \<open>
  \<^verbatim>\<open>string(b)\<close> keeps the bytes of \<open>b\<close>: a character of a HOL string is a byte.
\<close>

definition bytesToString :: "byte list \<Rightarrow> string" where
  "bytesToString b = map (\<lambda>x. char_of (unat x)) b"

definition stringToBytes :: "string \<Rightarrow> byte list" where
  "stringToBytes s = map of_char s"

text \<open>A panic of the Go runtime on an index or a slice bound.\<close>

definition boundsPanic :: "error + 'a \<Rightarrow> bool" where
  "boundsPanic r = (r = Inl IndexOutOfRange \<or> r = Inl SliceBounds)"

text \<open>The inner loop over the constants of a function chunk, which are skipped.\<close>

fun skipConsts :: "slice \<Rightarrow> nat \<Rightarrow> nat \<Rightarrow> error + nat" where
  "skipConsts c 0 off = Inr off"
| "skipConsts c (Suc j) off =
     (case indexAt c off of
        Inl e \<Rightarrow> Inl e
      | Inr kind \<Rightarrow>
          if kind = 1 then
            (case readUint32 c (off + 1) of
               Inl e \<Rightarrow> Inl e
             | Inr l \<Rightarrow> skipConsts c j (off + 1 + (4 + unat l)))
          else if kind = 2 then skipConsts c j (off + 1 + 8)
          else if kind = 3 then skipConsts c j (off + 1 + 4)
          else Inl UnknownConstType)"

text \<open>The loop over the function chunks.\<close>

fun skipFunctions :: "slice \<Rightarrow> nat \<Rightarrow> nat \<Rightarrow> error + nat" where
  "skipFunctions c 0 off = Inr off"
| "skipFunctions c (Suc i) off =
     (case readUint32 c off of
        Inl e \<Rightarrow> Inl e
      | Inr cCount \<Rightarrow>
          (case skipConsts c (unat cCount) (off + 4) of
             Inl e \<Rightarrow> Inl e
           | Inr off1 \<Rightarrow>
               (case readUint32 c off1 of
                  Inl e \<Rightarrow> Inl e
                | Inr l \<Rightarrow> skipFunctions c i (off1 + (4 + unat l)))))"

text \<open>The loop over the constants of the main chunk, which are decoded.\<close>

fun readConsts :: "slice \<Rightarrow> nat \<Rightarrow> nat \<Rightarrow> error + (Value list \<times> nat)" where
  "readConsts c 0 off = Inr ([], off)"
| "readConsts c (Suc j) off =
     (case indexAt c off of
        Inl e \<Rightarrow> Inl e
      | Inr kind \<Rightarrow>
          if kind = 1 then
            (case readUint32 c (off + 1) of
               Inl e \<Rightarrow> Inl e
             | Inr l \<Rightarrow>
                 (case sliceRange c (off + 1 + 4) (off + 1 + 4 + unat l) of
                    Inl e \<Rightarrow> Inl e
                  | Inr str \<Rightarrow>
                      (case readConsts c j (off + 1 + 4 + unat l) of
                         Inl e \<Rightarrow> Inl e
                       | Inr (vs, off') \<Rightarrow> Inr (Text (bytesToString str) # vs, off'))))
          else if kind = 2 then
            (case readUint64 c (off + 1) of
               Inl e \<Rightarrow> Inl e
             | Inr bits \<Rightarrow>
                 (case readConsts c j (off + 1 + 8) of
                    Inl e \<Rightarrow> Inl e
                  | Inr (vs, off') \<Rightarrow> Inr (Number bits # vs, off')))
          else if kind = 3 then
            (case readUint32 c (off + 1) of
               Inl e \<Rightarrow> Inl e
             | Inr v \<Rightarrow>
                 (case readConsts c j (off + 1 + 4) of
                    Inl e \<Rightarrow> Inl e
                  | Inr (vs, off') \<Rightarrow> Inr (Integer (uint v) # vs, off')))
          else Inl UnknownConstType)"

text \<open>
  \<^verbatim>\<open>loadModule\<close> up to the point where it has read \<^verbatim>\<open>codeLen\<close>: the constants of
  the main chunk, the offset of the main code and its declared length.
\<close>

definition scanModule :: "slice \<Rightarrow> error + (Value list \<times> nat \<times> nat)" where
  "scanModule c =
     (case sliceRange c 0 3 of
        Inl e \<Rightarrow> Inl e
      | Inr magic \<Rightarrow>
          if magic \<noteq> [0x4B, 0x42, 0x43] then Inl InvalidHeader
          else
            (case indexAt c 3 of
               Inl e \<Rightarrow> Inl e
             | Inr version \<Rightarrow>
                 if version \<noteq> 2 then Inl (UnsupportedVersion version)
                 else
                   (case readUint32 c 4 of
                      Inl e \<Rightarrow> Inl e
                    | Inr fnCount \<Rightarrow>
                        (case skipFunctions c (unat fnCount) 8 of
                           Inl e \<Rightarrow> Inl e
                         | Inr off \<Rightarrow>
                             (case readUint32 c off of
                                Inl e \<Rightarrow> Inl e
                              | Inr cCount \<Rightarrow>
                                  (case readConsts c (unat cCount) (off + 4) of
                                     Inl e \<Rightarrow> Inl e
                                   | Inr (consts, off1) \<Rightarrow>
                                       (case readUint32 c off1 of
                                          Inl e \<Rightarrow> Inl e
                                        | Inr codeLen \<Rightarrow>
                                            Inr (consts, off1 + 4, unat codeLen))))))))"

text \<open>
  \<^verbatim>\<open>loadModule\<close>: the new array of constants is the pool \<open>r\<close>, and the main code is
  the slice \<^verbatim>\<open>code[offset : offset+codeLen]\<close>.
\<close>

definition loadModule :: "ref \<Rightarrow> slice \<Rightarrow> VM \<Rightarrow> error + VM" where
  "loadModule r c vm =
     (case scanModule c of
        Inl e \<Rightarrow> Inl e
      | Inr (consts, off, codeLen) \<Rightarrow>
          (case sliceRange c off (off + codeLen) of
             Inl e \<Rightarrow> Inl e
           | Inr mainCode \<Rightarrow>
               Inr (vm\<lparr>constants := r, pools := (pools vm)(r := consts),
                       code := mainCode, ip := 0, sp := 0\<rparr>)))"

text \<open>\<^verbatim>\<open>New\<close>: a machine with an empty stack and call stack, loaded from the module.\<close>

definition New :: "slice \<Rightarrow> error + VM" where
  "New c = loadModule 0 c
     \<lparr>constants = 0, code = [], ip = 0, sp = 0, stack = [], callStack = [],
      pools = (\<lambda>r. [])\<rparr>"


section \<open>The emitter\<close>

abbreviation OP_CONST :: byte where "OP_CONST \<equiv> 0x01"
abbreviation OP_ADD :: byte where "OP_ADD \<equiv> 0x02"
abbreviation OP_SUB :: byte where "OP_SUB \<equiv> 0x03"
abbreviation OP_MUL :: byte where "OP_MUL \<equiv> 0x04"
abbreviation OP_DIV :: byte where "OP_DIV \<equiv> 0x05"
abbreviation OP_MOD :: byte where "OP_MOD \<equiv> 0x06"
abbreviation OP_EQ :: byte where "OP_EQ \<equiv> 0x07"
abbreviation OP_NEQ :: byte where "OP_NEQ \<equiv> 0x08"
abbreviation OP_LT :: byte where "OP_LT \<equiv> 0x09"
abbreviation OP_GT :: byte where "OP_GT \<equiv> 0x0A"
abbreviation OP_LE :: byte where "OP_LE \<equiv> 0x0B"
abbreviation OP_GE :: byte where "OP_GE \<equiv> 0x0C"
abbreviation OP_AND :: byte where "OP_AND \<equiv> 0x0D"
abbreviation OP_OR :: byte where "OP_OR \<equiv> 0x0E"
abbreviation OP_NOT :: byte where "OP_NOT \<equiv> 0x0F"
abbreviation OP_LOAD :: byte where "OP_LOAD \<equiv> 0x10"
abbreviation OP_STORE :: byte where "OP_STORE \<equiv> 0x11"
abbreviation OP_CALL :: byte where "OP_CALL \<equiv> 0x12"
abbreviation OP_RET :: byte where "OP_RET \<equiv> 0x13"
abbreviation OP_JMP :: byte where "OP_JMP \<equiv> 0x14"
abbreviation OP_JMPF :: byte where "OP_JMPF \<equiv> 0x15"
abbreviation OP_POP :: byte where "OP_POP \<equiv> 0x16"
abbreviation OP_EXIT :: byte where "OP_EXIT \<equiv> 0x17"

record Chunk =
  Code :: "byte list"
  Constants :: "Value list"
  Names :: "string \<rightharpoonup> int"

definition NewChunk :: Chunk where
  "NewChunk = \<lparr>Code = [], Constants = [], Names = Map.empty\<rparr>"

definition emit :: "Chunk \<Rightarrow> byte \<Rightarrow> Chunk" where
  "emit c b = c\<lparr>Code := Code c @ [b]\<rparr>"

definition emitInt :: "Chunk \<Rightarrow> int \<Rightarrow> Chunk" where
  "emitInt c v = c\<lparr>Code := Code c @ PutUint32 (word_of_int v)\<rparr>"

definition addConst :: "Chunk \<Rightarrow> Value \<Rightarrow> int \<times> Chunk" where
  "addConst c v =
     (let c' = c\<lparr>Constants := Constants c @ [v]\<rparr>
      in (int (length (Constants c')) - 1, c'))"

text \<open>
  \<^verbatim>\<open>patchJump\<close> overwrites the four bytes at \<open>pos\<close> with the length of the code. The
  emitter only calls it on a placeholder it has written, inside the code; the bound of
  the slice \<^verbatim>\<open>c.Code[pos:pos+4]\<close>, which Go checks against the capacity, is checked
  against the length here, and the two agree on every such call.
\<close>

definition patchJump :: "Chunk \<Rightarrow> int \<Rightarrow> error + Chunk" where
  "patchJump c pos =
     (let target = int (length (Code c))
      in if pos < 0 \<or> int (length (Code c)) < pos + 4 then Inl SliceBounds
         else Inr (c\<lparr>Code := take (nat pos) (Code c) @ PutUint32 (word_of_int target)
                               @ drop (nat pos + 4) (Code c)\<rparr>))"

text \<open>
  \<^verbatim>\<open>parseNumber\<close> scans the lexeme with \<^verbatim>\<open>fmt.Sscanf(s, "%f", &v)\<close>. The lexer's
  \<^verbatim>\<open>lexNumber\<close> produces decimal digits with at most one point among them, and on
  these the scan gives the float64 nearest to the decimal number; \<open>v\<close> stays 0 when the
  scan fails, which it does when there is no digit to scan and when the number lies beyond
  the largest float64.
\<close>

definition isDigit :: "char \<Rightarrow> bool" where
  "isDigit ch = (48 \<le> (of_char ch :: nat) \<and> (of_char ch :: nat) \<le> 57)"

fun digitsValue :: "nat \<Rightarrow> string \<Rightarrow> nat" where
  "digitsValue acc [] = acc"
| "digitsValue acc (ch # s) = digitsValue (10 * acc + (of_char ch - 48)) s"

definition parseNumber :: "string \<Rightarrow> float64" where
  "parseNumber s =
     (let whole = takeWhile isDigit s;
          rest = dropWhile isDigit s;
          part = (case rest of [] \<Rightarrow> [] | ch # r \<Rightarrow> if ch = CHR ''.'' then takeWhile isDigit r else [])
      in if whole = [] \<and> part = [] then 0
         else
           let v = f64_round False (digitsValue 0 (whole @ part)) (10 ^ length part) 0
           in if f64_isInf v then 0 else v)"

text \<open>
  The syntax tree, as the parser builds it. The three kinds of function definition are
  emitted by functions that are not part of the sources at hand, and are left out.
\<close>

datatype Expr =
    NumberExpr string
  | StringExpr string
  | BoolExpr bool
  | IdentExpr string
  | AssignExpr string Expr
  | UnaryExpr string Expr
  | BinaryExpr Expr string Expr
  | CallExpr Expr "Expr list"
  | MemberExpr Expr string
  | ParenExpr Expr

datatype Stmt =
    ExprStmt Expr
  | LetStmt string Expr
  | ReturnStmt Expr
  | ExitStmt
  | PassStmt
  | IfStmt Expr "Stmt list" "Stmt list"
  | WhileStmt Expr "Stmt list"
  | ForStmt string Expr "Stmt list"

definition emitBinaryOp :: "Chunk \<Rightarrow> string \<Rightarrow> error + Chunk" where
  "emitBinaryOp c op =
     (if op = ''+'' then Inr (emit c OP_ADD)
      else if op = ''-'' then Inr (emit c OP_SUB)
      else if op = ''*'' then Inr (emit c OP_MUL)
      else if op = ''/'' then Inr (emit c OP_DIV)
      else if op = ''%'' then Inr (emit c OP_MOD)
      else if op = ''=='' then Inr (emit c OP_EQ)
      else if op = ''!='' then Inr (emit c OP_NEQ)
      else if op = ''<'' then Inr (emit c OP_LT)
      else if op = ''>'' then Inr (emit c OP_GT)
      else if op = ''<='' then Inr (emit c OP_LE)
      else if op = ''>='' then Inr (emit c OP_GE)
      else if op = ''&&'' then Inr (emit c OP_AND)
      else if op = ''||'' then Inr (emit c OP_OR)
      else Inl (UnknownBinaryOperator op))"

text \<open>\<open>emitArgs\<close> is the loop over the arguments of a call.\<close>

fun emitExpr :: "Chunk \<Rightarrow> Expr \<Rightarrow> error + Chunk"
  and emitArgs :: "Chunk \<Rightarrow> Expr list \<Rightarrow> error + Chunk" where
  "emitExpr c (NumberExpr v) =
     (let (slot, c1) = addConst c (Number (parseNumber v))
      in Inr (emitInt (emit c1 OP_CONST) slot))"
| "emitExpr c (StringExpr v) =
     (let (slot, c1) = addConst c (Text v)
      in Inr (emitInt (emit c1 OP_CONST) slot))"
| "emitExpr c (BoolExpr v) =
     (let val = (if v then 0x3FF0000000000000 else 0);
          (slot, c1) = addConst c (Number val)
      in Inr (emitInt (emit c1 OP_CONST) slot))"
| "emitExpr c (IdentExpr name) =
     (let (slot, c1) = addConst c (Text name)
      in Inr (emitInt (emit c1 OP_LOAD) slot))"
| "emitExpr c (AssignExpr name e) =
     (case emitExpr c e of
        Inl x \<Rightarrow> Inl x
      | Inr c1 \<Rightarrow>
          let (slot, c2) = addConst c1 (Text name)
          in Inr (emitInt (emit c2 OP_STORE) slot))"
| "emitExpr c (UnaryExpr op e) =
     (case emitExpr c e of
        Inl x \<Rightarrow> Inl x
      | Inr c1 \<Rightarrow>
          if op = ''-'' then
            (let c2 = emit c1 OP_CONST;
                 (slot, c3) = addConst c2 (Number 0xBFF0000000000000)
             in Inr (emit (emitInt c3 slot) OP_MUL))
          else if op = ''!'' then Inr (emit c1 OP_NOT)
          else Inl (UnknownUnaryOperator op))"
| "emitExpr c (BinaryExpr l op r) =
     (case emitExpr c l of
        Inl x \<Rightarrow> Inl x
      | Inr c1 \<Rightarrow>
          (case emitExpr c1 r of
             Inl x \<Rightarrow> Inl x
           | Inr c2 \<Rightarrow> emitBinaryOp c2 op))"
| "emitExpr c (CallExpr callee args) =
     (case emitArgs c args of
        Inl x \<Rightarrow> Inl x
      | Inr c1 \<Rightarrow> Inr (emitInt (emit c1 OP_CALL) (int (length args))))"
| "emitExpr c (MemberExpr obj name) = Inl MemberAccessNotImplemented"
| "emitExpr c (ParenExpr e) = emitExpr c e"
| "emitArgs c [] = Inr c"
| "emitArgs c (arg # args) =
     (case emitExpr c arg of
        Inl x \<Rightarrow> Inl x
      | Inr c1 \<Rightarrow> emitArgs c1 args)"

text \<open>\<open>emitStmts\<close> is the loop over the statements of a block.\<close>

fun emitStmt :: "Chunk \<Rightarrow> Stmt \<Rightarrow> error + Chunk"
  and emitStmts :: "Chunk \<Rightarrow> Stmt list \<Rightarrow> error + Chunk" where
  "emitStmt c (ExprStmt e) =
     (case emitExpr c e of
        Inl x \<Rightarrow> Inl x
      | Inr c1 \<Rightarrow> Inr (emit c1 OP_POP))"
| "emitStmt c (LetStmt name e) =
     (case emitExpr c e of
        Inl x \<Rightarrow> Inl x
      | Inr c1 \<Rightarrow>
          let (slot, c2) = addConst c1 (Text name)
          in Inr (emitInt (emit c2 OP_STORE) slot))"
| "emitStmt c (ReturnStmt e) =
     (case emitExpr c e of
        Inl x \<Rightarrow> Inl x
      | Inr c1 \<Rightarrow> Inr (emit c1 OP_RET))"
| "emitStmt c ExitStmt = Inr (emit c OP_EXIT)"
| "emitStmt c PassStmt = Inr c"
| "emitStmt c (IfStmt cond thn els) =
     (case emitExpr c cond of
        Inl x \<Rightarrow> Inl x
      | Inr c1 \<Rightarrow>
          let c2 = emit c1 OP_JMPF;
              jumpPos = int (length (Code c2));
              c3 = emitInt c2 0
          in (case emitStmts c3 thn of
                Inl x \<Rightarrow> Inl x
              | Inr c4 \<Rightarrow>
                  if length els > 0 then
                    (let c5 = emit c4 OP_JMP;
                         elseJump = int (length (Code c5));
                         c6 = emitInt c5 0
                     in (case patchJump c6 jumpPos of
                           Inl x \<Rightarrow> Inl x
                         | Inr c7 \<Rightarrow>
                             (case emitStmts c7 els of
                                Inl x \<Rightarrow> Inl x
                              | Inr c8 \<Rightarrow> patchJump c8 elseJump)))
                  else patchJump c4 jumpPos))"
| "emitStmt c (WhileStmt cond body) =
     (let loopStart = int (length (Code c))
      in (case emitExpr c cond of
            Inl x \<Rightarrow> Inl x
          | Inr c1 \<Rightarrow>
              let c2 = emit c1 OP_JMPF;
                  exitPos = int (length (Code c2));
                  c3 = emitInt c2 0
              in (case emitStmts c3 body of
                    Inl x \<Rightarrow> Inl x
                  | Inr c4 \<Rightarrow> patchJump (emitInt (emit c4 OP_JMP) loopStart) exitPos)))"
| "emitStmt c (ForStmt varName limit body) =
     (case emitExpr c limit of
        Inl x \<Rightarrow> Inl x
      | Inr c1 \<Rightarrow>
          let (limitSlot, c2) = addConst c1 (Text (varName @ ''_limit''));
              c3 = emitInt (emit c2 OP_STORE) limitSlot;
              (iSlot, c4) = addConst c3 (Text varName);
              c5 = emit c4 OP_CONST;
              (zeroSlot, c6) = addConst c5 (Number 0);
              c7 = emitInt (emit (emitInt c6 zeroSlot) OP_STORE) iSlot;
              loopStart = int (length (Code c7));
              c8 = emitInt (emit c7 OP_LOAD) iSlot;
              c9 = emitInt (emit c8 OP_LOAD) limitSlot;
              c10 = emit (emit c9 OP_GE) OP_JMPF;
              exitPos = int (length (Code c10));
              c11 = emitInt c10 0
          in (case emitStmts c11 body of
                Inl x \<Rightarrow> Inl x
              | Inr c12 \<Rightarrow>
                  let c13 = emit (emitInt (emit c12 OP_LOAD) iSlot) OP_CONST;
                      (oneSlot, c14) = addConst c13 (Number 0x3FF0000000000000);
                      c15 = emitInt (emit (emit (emitInt c14 oneSlot) OP_ADD) OP_STORE) iSlot;
                      c16 = emitInt (emit c15 OP_JMP) loopStart
                  in patchJump c16 exitPos))"
| "emitStmts c [] = Inr c"
| "emitStmts c (st # sts) =
     (case emitStmt c st of
        Inl x \<Rightarrow> Inl x
      | Inr c1 \<Rightarrow> emitStmts c1 sts)"

text \<open>
  The machine that runs a chunk: what \<^verbatim>\<open>New\<close> makes of a module whose main chunk it
  is, with the constants of the chunk as pool 0.
\<close>

definition chunkVM :: "Chunk \<Rightarrow> VM" where
  "chunkVM c = \<lparr>constants = 0, code = Code c, ip = 0, sp = 0, stack = [], callStack = [],
                 pools = (\<lambda>r. [])(0 := Constants c)\<rparr>"

section \<open>The module encoder\<close>

text \<open>
  Modelled from the spec: \<^verbatim>\<open>encodeModuleWithFunctions\<close>, which \<^verbatim>\<open>Emit\<close> calls, is not
  part of the sources at hand. The encoding follows the format of the specification:
  a constant is its kind byte (1 string, 2 float64, 3 int32) and its payload, a chunk is
  the count of its constants, the constants, the length of its code and the code, and a
  module is the magic \<^verbatim>\<open>KBC\<close>, the version 2, the count of functions, the function
  chunks and the main chunk; every integer is 32 bits, little-endian.
\<close>

fun encodeConst :: "Value \<Rightarrow> byte list" where
  "encodeConst (Text s) = 1 # PutUint32 (word_of_nat (length s)) @ stringToBytes s"
| "encodeConst (Number f) = 2 # PutUint64 f"
| "encodeConst (Integer i) = 3 # PutUint32 (word_of_int i)"

definition encodeChunk :: "Value list \<times> byte list \<Rightarrow> byte list" where
  "encodeChunk ch =
     PutUint32 (word_of_nat (length (fst ch))) @ concat (map encodeConst (fst ch))
       @ PutUint32 (word_of_nat (length (snd ch))) @ snd ch"

record Module =
  fnTable :: "(Value list \<times> byte list) list"
  mainChunk :: "Value list \<times> byte list"

definition encodeModule :: "Module \<Rightarrow> byte list" where
  "encodeModule m =
     [0x4B, 0x42, 0x43, 2] @ PutUint32 (word_of_nat (length (fnTable m)))
       @ concat (map encodeChunk (fnTable m)) @ encodeChunk (mainChunk m)"

text \<open>
  What the format can hold: a count or a length is a 32-bit field, and so is an integer
  constant, which the loader reads back unsigned.
\<close>

fun constFits :: "Value \<Rightarrow> bool" where
  "constFits (Text s) = (length s < 2 ^ 32)"
| "constFits (Number f) = True"
| "constFits (Integer i) = True"

fun constExact :: "Value \<Rightarrow> bool" where
  "constExact (Text s) = True"
| "constExact (Number f) = True"
| "constExact (Integer i) = (0 \<le> i \<and> i < 2 ^ 32)"

definition chunkFits :: "Value list \<times> byte list \<Rightarrow> bool" where
  "chunkFits ch =
     (length (fst ch) < 2 ^ 32 \<and> list_all constFits (fst ch) \<and> length (snd ch) < 2 ^ 32)"

definition moduleOk :: "Module \<Rightarrow> bool" where
  "moduleOk m =
     (length (fnTable m) < 2 ^ 32 \<and> list_all chunkFits (fnTable m) \<and> chunkFits (mainChunk m)
      \<and> list_all constExact (fst (mainChunk m)))"

text \<open>
  \<^verbatim>\<open>Emit\<close>: the statements of the program go to the main chunk, a final
  \<^verbatim>\<open>OP_RET\<close> is added and the module is encoded. Without function definitions the
  function table, which \<^verbatim>\<open>resetFunctions\<close> has emptied, stays empty.
\<close>

definition Emit :: "Stmt list \<Rightarrow> error + byte list" where
  "Emit topLevel =
     (case emitStmts NewChunk topLevel of
        Inl x \<Rightarrow> Inl x
      | Inr c \<Rightarrow>
          let c' = emit c OP_RET
          in Inr (encodeModule \<lparr>fnTable = [], mainChunk = (Constants c', Code c')\<rparr>))"


section \<open>Evaluation of the float64 operations\<close>

lemma bitlen_unfold: "0 < n \<Longrightarrow> bitlen n = Suc (bitlen (n div 2))"
  by (subst bitlen.simps) simp

lemma bitlen_numeral [simp]: "bitlen (numeral k) = num_len k"
proof (induction k)
  case One
  show ?case by (simp add: bitlen_unfold bitlen.simps [of 0])
next
  case (Bit0 k)
  have "bitlen (numeral (num.Bit0 k)) = Suc (bitlen (numeral (num.Bit0 k) div 2))"
    by (rule bitlen_unfold) simp
  also have "(numeral (num.Bit0 k) :: nat) div 2 = numeral k" by simp
  finally show ?case using Bit0 by simp
next
  case (Bit1 k)
  have "bitlen (numeral (num.Bit1 k)) = Suc (bitlen (numeral (num.Bit1 k) div 2))"
    by (rule bitlen_unfold) simp
  also have "(numeral (num.Bit1 k) :: nat) div 2 = numeral k" by simp
  finally show ?case using Bit1 by simp
qed

lemma bitlen_0 [simp]: "bitlen 0 = 0"
  by (simp add: bitlen.simps)

lemma bitlen_1 [simp]: "bitlen (Suc 0) = 1"
  by (simp add: bitlen_unfold)

lemmas f64_defs = f64_sign_def f64_expo_def f64_frac_def f64_isNaN_def f64_isInf_def
  f64_mant_def f64_exp2_def f64_NaN_def f64_Inf_def f64_Zero_def f64_neg_def rne_def
  f64_round_def f64_num_def f64_add_def f64_sub_def f64_mul_def f64_div_def f64_mod_def
  f64_key_def f64_eq_def f64_lt_def f64_le_def f64_to_int_def f64_of_nat_def boolToFloat_def
  Let_def

text \<open>The bit patterns of the numbers the claims name.\<close>

lemma f64_of_nat_0: "f64_of_nat 0 = 0"
  by (simp add: f64_defs)

lemma f64_of_nat_1: "f64_of_nat 1 = 0x3FF0000000000000"
  by (simp add: f64_defs)

lemma f64_of_nat_3: "f64_of_nat 3 = 0x4008000000000000"
  by (simp add: f64_defs)

lemma f64_of_nat_4: "f64_of_nat 4 = 0x4010000000000000"
  by (simp add: f64_defs)

lemma f64_of_nat_5: "f64_of_nat 5 = 0x4014000000000000"
  by (simp add: f64_defs)

lemma f64_of_nat_7: "f64_of_nat 7 = 0x401C000000000000"
  by (simp add: f64_defs)




lemmas f64_literals = f64_of_nat_0 f64_of_nat_1 f64_of_nat_3 f64_of_nat_4 f64_of_nat_5
  f64_of_nat_7

section \<open>Little-endian integers\<close>

lemma length_PutUint32 [simp]: "length (PutUint32 w) = 4"
  by (simp add: PutUint32_def)

lemma Uint32_PutUint32 [simp]: "Uint32 (PutUint32 w @ xs) = w"
  unfolding Uint32_def PutUint32_def
  apply (rule bit_word_eqI)
  apply (simp add: bit_simps less_diff_conv2 cong: conj_cong)
  subgoal for n by (cases "bit w n") (simp_all, arith)
  done

lemma length_PutUint64 [simp]: "length (PutUint64 w) = 8"
  by (simp add: PutUint64_def)

lemma Uint64_PutUint64 [simp]: "Uint64 (PutUint64 w @ xs) = w"
  unfolding Uint64_def PutUint64_def
  apply (rule bit_word_eqI)
  apply (simp add: bit_simps less_diff_conv2 cong: conj_cong)
  subgoal for n by (cases "bit w n") (simp_all, arith)
  done

section \<open>Single instructions\<close>

lemma readInt_at:
  assumes "code vm = pre @ PutUint32 w @ post" and "ip vm = int (length pre)"
  shows "readInt vm = Inr (uint w, vm\<lparr>ip := ip vm + 4\<rparr>)"
  using assms by (simp add: readInt_def)

lemma step_STORE:
  assumes "0 \<le> ip vm" and "ip vm < int (length (code vm))"
    and "code vm ! nat (ip vm) = OP_STORE"
  shows "step lf vm =
     (case readInt (vm\<lparr>ip := ip vm + 1\<rparr>) of
        Inl e \<Rightarrow> Inl e
      | Inr (idx, vm1) \<Rightarrow>
          (case pop vm1 of
             Inl e \<Rightarrow> Inl e
           | Inr (val, vm2) \<Rightarrow>
               (if idx < 0 \<or> int (length (pools vm2 (constants vm2))) \<le> idx
                then Inl IndexOutOfRange
                else Inr (Continue (vm2\<lparr>pools := (pools vm2)
                       (constants vm2 := (pools vm2 (constants vm2))[nat idx := val])\<rparr>)))))"
  using assms by (simp add: step_def Let_def)

lemma step_LOAD_CONST:
  assumes "0 \<le> ip vm" and "ip vm < int (length (code vm))"
    and "code vm ! nat (ip vm) = OP_LOAD \<or> code vm ! nat (ip vm) = OP_CONST"
  shows "step lf vm =
     (case readInt (vm\<lparr>ip := ip vm + 1\<rparr>) of
        Inl e \<Rightarrow> Inl e
      | Inr (idx, vm1) \<Rightarrow>
          (case constAt vm1 idx of
             Inl e \<Rightarrow> Inl e
           | Inr v \<Rightarrow> Inr (Continue (push v vm1))))"
  using assms by (auto simp add: step_def Let_def)

lemma step_STORE_at:
  assumes "code vm = pre @ [OP_STORE] @ PutUint32 w @ post"
    and "ip vm = int (length pre)"
    and "stack vm = st @ [v]"
    and "sp vm = int (length st) + 1"
    and "unat w < length (pools vm (constants vm))"
  shows "step lf vm = Inr (Continue (vm\<lparr>ip := ip vm + 5, sp := int (length st), stack := st,
      pools := (pools vm)(constants vm := (pools vm (constants vm))[unat w := v])\<rparr>))"
proof -
  define i where "i = unat w"
  have ui: "uint w = int i" by (simp add: i_def)
  have il: "i < length (pools vm (constants vm))" using assms(5) by (simp add: i_def)
  let ?vmA = "vm\<lparr>ip := ip vm + 1\<rparr>"
  have rA: "readInt ?vmA = Inr (uint w, ?vmA\<lparr>ip := ip ?vmA + 4\<rparr>)"
    by (rule readInt_at [where pre = "pre @ [OP_STORE]" and post = post]) (simp_all add: assms)
  have op0: "code vm ! nat (ip vm) = OP_STORE"
    by (simp add: assms nth_append)
  have in0: "0 \<le> ip vm" "ip vm < int (length (code vm))"
    by (simp_all add: assms)
  show ?thesis
    using assms(3,4) il by (simp add: step_STORE [OF in0 op0] rA pop_def ui i_def [symmetric])
qed

lemma step_LOAD_CONST_at:
  assumes "code vm = pre @ [op] @ PutUint32 w @ post"
    and "op = OP_LOAD \<or> op = OP_CONST"
    and "ip vm = int (length pre)"
    and "unat w < length (pools vm (constants vm))"
  shows "step lf vm =
     Inr (Continue (push (pools vm (constants vm) ! unat w) (vm\<lparr>ip := ip vm + 5\<rparr>)))"
proof -
  define i where "i = unat w"
  have ui: "uint w = int i" by (simp add: i_def)
  have il: "i < length (pools vm (constants vm))" using assms(4) by (simp add: i_def)
  let ?vmA = "vm\<lparr>ip := ip vm + 1\<rparr>"
  have rA: "readInt ?vmA = Inr (uint w, ?vmA\<lparr>ip := ip ?vmA + 4\<rparr>)"
    by (rule readInt_at [where pre = "pre @ [op]" and post = post]) (simp_all add: assms)
  have op0: "code vm ! nat (ip vm) = op"
    by (simp add: assms nth_append)
  have in0: "0 \<le> ip vm" "ip vm < int (length (code vm))"
    by (simp_all add: assms)
  show ?thesis
    using il assms(2) [folded op0]
    by (simp add: step_LOAD_CONST [OF in0] rA constAt_def ui i_def [symmetric] push_def)
qed

lemmas vm_defs = step_def binaryFloat_def binaryValue_def popFloat_def pop_def push_def
  readInt_def constAt_def callFunction_def returnFromFunction_def

lemma f64_le_3_0: "f64_le 0x4008000000000000 0 = False"
  by (simp add: f64_defs)

lemma f64_eq_0_0: "f64_eq 0 0 = True"
  by (simp add: f64_defs)

lemma f64_to_int_0: "f64_to_int 0 = 0"
  by (simp add: f64_defs)

lemma f64_to_int_7: "f64_to_int 0x401C000000000000 = 7"
  by (simp add: f64_defs)

section \<open>Evaluation of the emitter and of runs\<close>

lemmas emit_defs = emit_def emitInt_def addConst_def patchJump_def NewChunk_def PutUint32_def
  emitBinaryOp_def Let_def

lemma parseNumber_1: "parseNumber ''1'' = 0x3FF0000000000000"
  by (simp add: parseNumber_def isDigit_def f64_defs)
lemma parseNumber_3: "parseNumber ''3'' = 0x4008000000000000"
  by (simp add: parseNumber_def isDigit_def f64_defs)
lemma parseNumber_5: "parseNumber ''5'' = 0x4014000000000000"
  by (simp add: parseNumber_def isDigit_def f64_defs)
lemma parseNumber_7: "parseNumber ''7'' = 0x401C000000000000"
  by (simp add: parseNumber_def isDigit_def f64_defs)

lemma steps_numeral:
  "steps lf (numeral k) vm =
     (if ip vm < int (length (code vm)) then
        (case step lf vm of
           Inl e \<Rightarrow> Inl e
         | Inr (Continue vm') \<Rightarrow> steps lf (pred_numeral k) vm'
         | Inr (Return r vm') \<Rightarrow> Inr (Return r vm'))
      else Inr (Return None vm))"
  by (simp add: numeral_eq_Suc)

lemma Run_steps:
  "steps lf n vm = Inr (Continue vm') \<Longrightarrow> Run lf (n + m) vm = Run lf m vm'"
proof (induction n arbitrary: vm)
  case 0
  then show ?case by simp
next
  case (Suc n)
  then show ?case
    by (auto split: if_splits sum.splits outcome.splits)
qed

lemmas run_defs = chunkVM_def steps_numeral vm_defs Uint32_def


section \<open>The loop that copies the arguments of a call\<close>

lemma pushArgs_copies:
  assumes "0 \<le> base + i" and "nat (base + i) + k \<le> length s0" and "stack vm = s0 @ ys"
  shows "pushArgs base i k vm =
     Inr (vm\<lparr>stack := stack vm @ take k (drop (nat (base + i)) s0), sp := sp vm + int k\<rparr>)"
  using assms
proof (induction k arbitrary: i vm ys)
  case 0
  then show ?case by simp
next
  case (Suc k)
  let ?n = "nat (base + i)"
  have n: "?n < length s0" using Suc.prems by simp
  have nth: "stack vm ! ?n = s0 ! ?n"
    using n Suc.prems(3) by (simp add: nth_append)
  have *: "pushArgs base (i + 1) k (push (s0 ! ?n) vm) =
      Inr ((push (s0 ! ?n) vm)\<lparr>stack := stack (push (s0 ! ?n) vm) @ take k (drop (nat (base + (i + 1))) s0),
                                sp := sp (push (s0 ! ?n) vm) + int k\<rparr>)"
    by (rule Suc.IH [where ys = "ys @ [s0 ! ?n]"]) (use Suc.prems in \<open>simp_all add: push_def\<close>)
  have idx: "nat (base + (i + 1)) = Suc ?n"
    using Suc.prems(1) by simp
  have tk: "take (Suc k) (drop ?n s0) = s0 ! ?n # take k (drop (Suc ?n) s0)"
    using n by (simp add: Cons_nth_drop_Suc [symmetric])
  have bound: "\<not> (base + i < 0 \<or> int (length (stack vm)) \<le> base + i)"
    using n Suc.prems(1,3) by auto
  have "pushArgs base i (Suc k) vm = pushArgs base (i + 1) k (push (stack vm ! ?n) vm)"
    using bound by simp
  also have "\<dots> = pushArgs base (i + 1) k (push (s0 ! ?n) vm)"
    by (simp only: nth)
  also note *
  finally show ?case
    by (simp add: push_def idx tk)
qed

text \<open>
  What \<^verbatim>\<open>callFunction\<close> does to a machine whose \<^verbatim>\<open>sp\<close> lies within its stack, as it
  does in every machine that \<^verbatim>\<open>Run\<close> reaches.
\<close>

lemma callFunction_copies:
  assumes "lf fnID = Inr (fnCode, fnConsts)"
    and "0 \<le> argCount" and "argCount \<le> sp vm"
    and "sp vm \<le> int (length (stack vm))"
  shows "callFunction lf fnID argCount vm =
     Inr (vm\<lparr>callStack := callStack vm @
                [\<lparr>ipBackup = ip vm, spBackup = sp vm - argCount,
                  fcode = code vm, fconsts = constants vm\<rparr>],
              code := fnCode, constants := fnConsts, ip := 0,
              sp := argCount,
              stack := stack vm @ take (nat argCount) (drop (nat (sp vm - argCount)) (stack vm))\<rparr>)"
proof -
  let ?vm = "vm\<lparr>callStack := callStack vm @
                [\<lparr>ipBackup = ip vm, spBackup = sp vm - argCount,
                  fcode = code vm, fconsts = constants vm\<rparr>],
              code := fnCode, constants := fnConsts, ip := 0, sp := 0\<rparr>"
  have "pushArgs (sp vm - argCount) 0 (nat argCount) ?vm =
      Inr (?vm\<lparr>stack := stack ?vm
                  @ take (nat argCount) (drop (nat (sp vm - argCount + 0)) (stack vm)),
                sp := sp ?vm + int (nat argCount)\<rparr>)"
    by (rule pushArgs_copies [where ys = "[]"]) (use assms in simp_all)
  then show ?thesis
    using assms by (simp add: callFunction_def)
qed

section \<open>The code of an expression\<close>

lemma emitBinaryOp_Code:
  "emitBinaryOp c op = Inr c' \<Longrightarrow> \<exists>b. Code c' = Code c @ [b] \<and> Constants c' = Constants c"
  by (auto simp add: emitBinaryOp_def emit_def split: if_splits)

lemma emitExpr_appends:
  "emitExpr c e = Inr c' \<Longrightarrow> \<exists>bs. Code c' = Code c @ bs"
  "emitArgs c es = Inr c' \<Longrightarrow> \<exists>bs. Code c' = Code c @ bs"
proof (induction c e and c es arbitrary: c' and c' rule: emitExpr_emitArgs.induct)
  case (7 c l op r)
  then show ?case
    by (fastforce split: sum.splits dest: emitBinaryOp_Code)
next
  case (12 c arg args)
  then show ?case
    by (fastforce split: sum.splits)
qed (fastforce simp add: emit_def emitInt_def addConst_def Let_def split: sum.splits if_splits)+

lemma pop_consistent:
  assumes "sp vm = int (length (stack vm))" and "stack vm \<noteq> []"
  shows "pop vm = Inr (last (stack vm), vm\<lparr>sp := sp vm - 1, stack := butlast (stack vm)\<rparr>)"
proof -
  have "nat (int (length (stack vm)) - 1) = length (stack vm) - 1"
    by simp
  then show ?thesis
    using assms by (simp add: pop_def Let_def last_conv_nth butlast_conv_take)
qed

lemmas vm_defs' = step_def binaryFloat_def binaryValue_def popFloat_def pop_consistent push_def

lemma step_AND_OR:
  assumes "opc = OP_AND \<or> opc = OP_OR"
  shows "step lf (vm\<lparr>code := pre @ [opc] @ post, ip := int (length pre),
                   sp := int (length st) + 2, stack := st @ [Number a, Number b]\<rparr>)
     = Inr (Continue (vm\<lparr>code := pre @ [opc] @ post, ip := int (length pre) + 1,
                   sp := int (length st) + 1,
                   stack := st @ [Number (boolToFloat
                     (if opc = OP_AND then \<not> f64_eq a 0 \<and> \<not> f64_eq b 0
                      else \<not> f64_eq a 0 \<or> \<not> f64_eq b 0))]\<rparr>))"
  using assms by (elim disjE; simp add: vm_defs' nth_append Let_def butlast_append)

lemma step_AND_OR_one_operand:
  assumes "opc = OP_AND \<or> opc = OP_OR"
  shows "step lf (vm\<lparr>code := pre @ [opc] @ post, ip := int (length pre),
                   sp := 1, stack := [Number a]\<rparr>) = Inl StackUnderflow"
  using assms by (elim disjE; simp add: vm_defs nth_append Let_def)

lemma false_and_panics:
  "\<exists>c. emitStmts NewChunk
        [ReturnStmt (BinaryExpr (BoolExpr False) ''&&'' (UnaryExpr ''!'' (StringExpr ''s'')))] = Inr c
     \<and> Code c = [OP_CONST, 0, 0, 0, 0, OP_CONST, 1, 0, 0, 0, OP_NOT, OP_AND, OP_RET]
     \<and> steps lf 3 (chunkVM c) = Inl TypeAssertion"
  by (simp add: emit_defs run_defs)


section \<open>The loader on a truncated buffer\<close>

lemma Uint32_take: "4 \<le> length xs \<Longrightarrow> 4 \<le> k \<Longrightarrow> Uint32 (take k xs) = Uint32 xs"
  by (simp add: Uint32_def)

lemma Uint64_take: "8 \<le> length xs \<Longrightarrow> 8 \<le> k \<Longrightarrow> Uint64 (take k xs) = Uint64 xs"
  by (simp add: Uint64_def)

lemma indexAt_take:
  "indexAt (bs, []) i = Inr b \<Longrightarrow>
     indexAt (take k bs, []) i = Inr b \<or> boundsPanic (indexAt (take k bs, []) i)"
  by (auto simp add: indexAt_def boundsPanic_def split: if_splits)

lemma readUint32_take:
  "readUint32 (bs, []) off = Inr w \<Longrightarrow>
     readUint32 (take k bs, []) off = Inr w \<or> boundsPanic (readUint32 (take k bs, []) off)"
  by (auto simp add: readUint32_def boundsPanic_def drop_take Uint32_take split: if_splits)

lemma readUint64_take:
  "readUint64 (bs, []) off = Inr w \<Longrightarrow>
     readUint64 (take k bs, []) off = Inr w \<or> boundsPanic (readUint64 (take k bs, []) off)"
  by (auto simp add: readUint64_def boundsPanic_def drop_take Uint64_take split: if_splits)

lemma sliceRange_take:
  "sliceRange (bs, []) lo hi = Inr xs \<Longrightarrow>
     sliceRange (take k bs, []) lo hi = Inr xs \<or> boundsPanic (sliceRange (take k bs, []) lo hi)"
  by (auto simp add: sliceRange_def boundsPanic_def drop_take split: if_splits)


lemma boundsPanic_Inl [simp]:
  "boundsPanic (Inl e) = (e = IndexOutOfRange \<or> e = SliceBounds)"
  by (simp add: boundsPanic_def)

lemma boundsPanic_Inr [simp]: "\<not> boundsPanic (Inr x)"
  by (simp add: boundsPanic_def)

lemma skipConsts_take:
  "skipConsts (bs, []) n off = Inr off' \<Longrightarrow>
     skipConsts (take k bs, []) n off = Inr off' \<or> boundsPanic (skipConsts (take k bs, []) n off)"
proof (induction n arbitrary: off)
  case 0
  then show ?case by simp
next
  case (Suc n)
  obtain kind where kind: "indexAt (bs, []) off = Inr kind"
    using Suc.prems by (auto split: sum.splits)
  from indexAt_take [OF kind, of k] show ?case
  proof
    assume t: "indexAt (take k bs, []) off = Inr kind"
    consider "kind = 1" | "kind = 2" | "kind = 3" | "kind \<noteq> 1 \<and> kind \<noteq> 2 \<and> kind \<noteq> 3"
      by blast
    then show ?thesis
    proof cases
      case 1
      obtain l where l: "readUint32 (bs, []) (off + 1) = Inr l"
        using Suc.prems kind 1 by (auto split: sum.splits)
      have rest: "skipConsts (bs, []) n (off + 1 + (4 + unat l)) = Inr off'"
        using Suc.prems kind 1 l by simp
      from readUint32_take [OF l, of k] show ?thesis
      proof
        assume "readUint32 (take k bs, []) (off + 1) = Inr l"
        then show ?thesis
          using Suc.IH [OF rest] t 1 by simp
      next
        assume "boundsPanic (readUint32 (take k bs, []) (off + 1))"
        then show ?thesis
          using t 1 by (auto split: sum.splits)
      qed
    next
      case 2
      then show ?thesis
        using Suc.prems kind t Suc.IH [of "off + 1 + 8"] by simp
    next
      case 3
      then show ?thesis
        using Suc.prems kind t Suc.IH [of "off + 1 + 4"] by simp
    next
      case 4
      then show ?thesis
        using Suc.prems kind by simp
    qed
  next
    assume "boundsPanic (indexAt (take k bs, []) off)"
    then show ?thesis
      by (auto split: sum.splits)
  qed
qed

lemma skipFunctions_take:
  "skipFunctions (bs, []) n off = Inr off' \<Longrightarrow>
     skipFunctions (take k bs, []) n off = Inr off'
     \<or> boundsPanic (skipFunctions (take k bs, []) n off)"
proof (induction n arbitrary: off)
  case 0
  then show ?case by simp
next
  case (Suc n)
  obtain cCount where cc: "readUint32 (bs, []) off = Inr cCount"
    using Suc.prems by (auto split: sum.splits)
  obtain off1 where o1: "skipConsts (bs, []) (unat cCount) (off + 4) = Inr off1"
    using Suc.prems cc by (auto split: sum.splits)
  obtain l where l: "readUint32 (bs, []) off1 = Inr l"
    using Suc.prems cc o1 by (auto split: sum.splits)
  have rest: "skipFunctions (bs, []) n (off1 + (4 + unat l)) = Inr off'"
    using Suc.prems cc o1 l by simp
  show ?case
    using readUint32_take [OF cc, of k] skipConsts_take [OF o1, of k]
      readUint32_take [OF l, of k] Suc.IH [OF rest]
    by (auto split: sum.splits)
qed

lemma readConsts_take:
  "readConsts (bs, []) n off = Inr res \<Longrightarrow>
     readConsts (take k bs, []) n off = Inr res \<or> boundsPanic (readConsts (take k bs, []) n off)"
proof (induction n arbitrary: off res)
  case 0
  then show ?case by simp
next
  case (Suc n)
  obtain kind where kind: "indexAt (bs, []) off = Inr kind"
    using Suc.prems by (auto split: sum.splits)
  from indexAt_take [OF kind, of k] show ?case
  proof
    assume t: "indexAt (take k bs, []) off = Inr kind"
    consider "kind = 1" | "kind = 2" | "kind = 3" | "kind \<noteq> 1 \<and> kind \<noteq> 2 \<and> kind \<noteq> 3"
      by blast
    then show ?thesis
    proof cases
      case 1
      obtain l where l: "readUint32 (bs, []) (off + 1) = Inr l"
        using Suc.prems kind 1 by (auto split: sum.splits)
      obtain str where str: "sliceRange (bs, []) (off + 1 + 4) (off + 1 + 4 + unat l) = Inr str"
        using Suc.prems kind 1 l by (auto split: sum.splits)
      obtain vs o' where rest: "readConsts (bs, []) n (off + 1 + 4 + unat l) = Inr (vs, o')"
        using Suc.prems kind 1 l str by (auto split: sum.splits)
      have res: "res = (Text (bytesToString str) # vs, o')"
        using Suc.prems kind 1 l str rest by simp
      show ?thesis
        using readUint32_take [OF l, of k] sliceRange_take [OF str, of k] Suc.IH [OF rest] t 1 res
        by (auto split: sum.splits)
    next
      case 2
      obtain bits where bits: "readUint64 (bs, []) (off + 1) = Inr bits"
        using Suc.prems kind 2 by (auto split: sum.splits)
      obtain vs o' where rest: "readConsts (bs, []) n (off + 1 + 8) = Inr (vs, o')"
        using Suc.prems kind 2 bits by (auto split: sum.splits)
      have res: "res = (Number bits # vs, o')"
        using Suc.prems kind 2 bits rest by simp
      show ?thesis
        using readUint64_take [OF bits, of k] Suc.IH [OF rest] t 2 res
        by (auto split: sum.splits)
    next
      case 3
      obtain v where v: "readUint32 (bs, []) (off + 1) = Inr v"
        using Suc.prems kind 3 by (auto split: sum.splits)
      obtain vs o' where rest: "readConsts (bs, []) n (off + 1 + 4) = Inr (vs, o')"
        using Suc.prems kind 3 v by (auto split: sum.splits)
      have res: "res = (Integer (uint v) # vs, o')"
        using Suc.prems kind 3 v rest by simp
      show ?thesis
        using readUint32_take [OF v, of k] Suc.IH [OF rest] t 3 res
        by (auto split: sum.splits)
    next
      case 4
      then show ?thesis
        using Suc.prems kind by simp
    qed
  next
    assume "boundsPanic (indexAt (take k bs, []) off)"
    then show ?thesis
      by (auto split: sum.splits)
  qed
qed


lemma scanModule_take:
  assumes "scanModule (bs, []) = Inr res"
  shows "scanModule (take k bs, []) = Inr res \<or> boundsPanic (scanModule (take k bs, []))"
proof -
  obtain magic where magic: "sliceRange (bs, []) 0 3 = Inr magic"
    using assms by (auto simp add: scanModule_def split: sum.splits)
  have m: "magic = [0x4B, 0x42, 0x43]"
    using assms magic by (auto simp add: scanModule_def split: sum.splits if_splits)
  obtain version where version: "indexAt (bs, []) 3 = Inr version"
    using assms magic m by (auto simp add: scanModule_def split: sum.splits if_splits)
  have v: "version = 2"
    using assms magic m version by (auto simp add: scanModule_def split: sum.splits if_splits)
  obtain fnCount where fnCount: "readUint32 (bs, []) 4 = Inr fnCount"
    using assms magic m version v by (auto simp add: scanModule_def split: sum.splits)
  obtain off where off: "skipFunctions (bs, []) (unat fnCount) 8 = Inr off"
    using assms magic m version v fnCount by (auto simp add: scanModule_def split: sum.splits)
  obtain cCount where cCount: "readUint32 (bs, []) off = Inr cCount"
    using assms magic m version v fnCount off by (auto simp add: scanModule_def split: sum.splits)
  obtain cs off1 where cs: "readConsts (bs, []) (unat cCount) (off + 4) = Inr (cs, off1)"
    using assms magic m version v fnCount off cCount
    by (auto simp add: scanModule_def split: sum.splits)
  obtain codeLen where codeLen: "readUint32 (bs, []) off1 = Inr codeLen"
    using assms magic m version v fnCount off cCount cs
    by (auto simp add: scanModule_def split: sum.splits)
  have res: "res = (cs, off1 + 4, unat codeLen)"
    using assms magic m version v fnCount off cCount cs codeLen
    by (simp add: scanModule_def)
  let ?c = "(take k bs, [])"
  show ?thesis
  proof (cases "boundsPanic (sliceRange ?c 0 3)")
    case True
    then show ?thesis
      by (auto simp add: scanModule_def split: sum.splits)
  next
    case False
    then have 1: "sliceRange ?c 0 3 = Inr magic"
      using sliceRange_take [OF magic, of k] by blast
    show ?thesis
    proof (cases "boundsPanic (indexAt ?c 3)")
      case True
      then show ?thesis
        by (auto simp add: scanModule_def 1 m split: sum.splits)
    next
      case False
      then have 2: "indexAt ?c 3 = Inr version"
        using indexAt_take [OF version, of k] by blast
      show ?thesis
      proof (cases "boundsPanic (readUint32 ?c 4)")
        case True
        then show ?thesis
          by (auto simp add: scanModule_def 1 m 2 v split: sum.splits)
      next
        case False
        then have 3: "readUint32 ?c 4 = Inr fnCount"
          using readUint32_take [OF fnCount, of k] by blast
        show ?thesis
        proof (cases "boundsPanic (skipFunctions ?c (unat fnCount) 8)")
          case True
          then show ?thesis
            by (auto simp add: scanModule_def 1 m 2 v 3 split: sum.splits)
        next
          case False
          then have 4: "skipFunctions ?c (unat fnCount) 8 = Inr off"
            using skipFunctions_take [OF off, of k] by blast
          show ?thesis
          proof (cases "boundsPanic (readUint32 ?c off)")
            case True
            then show ?thesis
              by (auto simp add: scanModule_def 1 m 2 v 3 4 split: sum.splits)
          next
            case False
            then have 5: "readUint32 ?c off = Inr cCount"
              using readUint32_take [OF cCount, of k] by blast
            show ?thesis
            proof (cases "boundsPanic (readConsts ?c (unat cCount) (off + 4))")
              case True
              then show ?thesis
                by (auto simp add: scanModule_def 1 m 2 v 3 4 5 split: sum.splits)
            next
              case False
              then have 6: "readConsts ?c (unat cCount) (off + 4) = Inr (cs, off1)"
                using readConsts_take [OF cs, of k] by blast
              show ?thesis
              proof (cases "boundsPanic (readUint32 ?c off1)")
                case True
                then show ?thesis
                  by (auto simp add: scanModule_def 1 m 2 v 3 4 5 6 split: sum.splits)
              next
                case False
                then have 7: "readUint32 ?c off1 = Inr codeLen"
                  using readUint32_take [OF codeLen, of k] by blast
                show ?thesis
                  by (simp add: scanModule_def 1 m 2 v 3 4 5 6 7 res)
              qed
            qed
          qed
        qed
      qed
    qed
  qed
qed

lemma valid_module_loads:
  assumes "scanModule (bs, []) = Inr (cs, off, codeLen)"
    and "off + codeLen = length bs"
  shows "New (bs, []) = Inr \<lparr>constants = 0, code = drop off bs, ip = 0, sp = 0, stack = [],
           callStack = [], pools = (\<lambda>r. [])(0 := cs)\<rparr>"
  using assms by (simp add: New_def loadModule_def sliceRange_def)

section \<open>The loader on an encoded module\<close>

lemma bytesToString_stringToBytes [simp]: "bytesToString (stringToBytes s) = s"
proof -
  have "char_of (unat (of_char c :: byte)) = c" for c
  proof -
    have "(of_char c :: byte) = word_of_nat (of_char c)"
      by (simp add: of_nat_of_char)
    then have "unat (of_char c :: byte) = of_char c mod 256"
      by (simp only: unat_of_nat) simp
    then show ?thesis by simp
  qed
  then show ?thesis
    by (simp add: bytesToString_def stringToBytes_def comp_def map_idI)
qed

lemma length_stringToBytes [simp]: "length (stringToBytes s) = length s"
  by (simp add: stringToBytes_def)

lemma drop_append_eq: "drop off bs = xs @ rest \<Longrightarrow> drop (off + length xs) bs = rest"
  by (metis add.commute append_eq_conv_conj drop_drop)

lemma drop_nonempty_le: "drop off bs = x # rest \<Longrightarrow> off < length bs"
  by (metis drop_eq_Nil list.distinct(1) not_le)

lemma indexAt_drop: "drop off bs = b # rest \<Longrightarrow> indexAt (bs, spare) off = Inr b"
  using drop_nonempty_le [of off bs b rest]
  by (simp add: indexAt_def) (metis nth_via_drop)

lemma readUint32_drop:
  assumes "drop off bs = PutUint32 w @ rest"
  shows "readUint32 (bs, spare) off = Inr w"
proof -
  have "length (drop off bs) \<ge> 4"
    using assms by simp
  then have "off \<le> length bs" "length bs - off \<ge> 4"
    by simp_all
  then show ?thesis
    using assms by (simp add: readUint32_def)
qed

lemma readUint64_drop:
  assumes "drop off bs = PutUint64 w @ rest"
  shows "readUint64 (bs, spare) off = Inr w"
proof -
  have "length (drop off bs) \<ge> 8"
    using assms by simp
  then have "off \<le> length bs" "length bs - off \<ge> 8"
    by simp_all
  then show ?thesis
    using assms by (simp add: readUint64_def)
qed

lemma sliceRange_drop:
  assumes "drop off bs = xs @ rest" and "off \<le> length bs"
  shows "sliceRange (bs, spare) off (off + length xs) = Inr xs"
proof -
  have "length xs \<le> length (drop off bs)"
    using assms(1) by simp
  then have "off + length xs \<le> length bs"
    using assms(2) by simp
  then show ?thesis
    using assms by (simp add: sliceRange_def)
qed


lemma unat_word_of_nat32: "n < 2 ^ 32 \<Longrightarrow> unat (word_of_nat n :: 32 word) = n"
  by (simp add: unat_of_nat)

lemma length_encodeConst:
  "length (encodeConst v) = (case v of Text s \<Rightarrow> 5 + length s | Number f \<Rightarrow> 9 | Integer i \<Rightarrow> 5)"
  by (cases v) simp_all

lemma skipConsts_encode:
  assumes "drop off bs = concat (map encodeConst cs) @ rest" and "list_all constFits cs"
  shows "skipConsts (bs, spare) (length cs) off = Inr (off + length (concat (map encodeConst cs)))"
  using assms
proof (induction cs arbitrary: off)
  case Nil
  then show ?case by simp
next
  case (Cons v cs)
  have next_off: "drop (off + length (encodeConst v)) bs = concat (map encodeConst cs) @ rest"
    using Cons.prems(1) by (intro drop_append_eq) simp
  have fits: "list_all constFits cs"
    using Cons.prems(2) by simp
  have IH: "skipConsts (bs, spare) (length cs) (off + length (encodeConst v))
      = Inr (off + length (encodeConst v) + length (concat (map encodeConst cs)))"
    by (rule Cons.IH [OF next_off fits])
  show ?case
  proof (cases v)
    case (Text s)
    have kind: "indexAt (bs, spare) off = Inr 1"
      using Cons.prems(1) Text by (intro indexAt_drop) simp
    have "drop (off + 1) bs = PutUint32 (word_of_nat (length s))
        @ (stringToBytes s @ concat (map encodeConst cs) @ rest)"
      using Cons.prems(1) Text drop_append_eq [of off bs "[1]"] by simp
    then have len: "readUint32 (bs, spare) (off + 1) = Inr (word_of_nat (length s))"
      by (rule readUint32_drop)
    have u: "unat (word_of_nat (length s) :: 32 word) = length s"
      using Cons.prems(2) Text by (simp add: unat_word_of_nat32)
    show ?thesis
      using IH kind len u Text by (simp add: ac_simps)
  next
    case (Number f)
    have kind: "indexAt (bs, spare) off = Inr 2"
      using Cons.prems(1) Number by (intro indexAt_drop) simp
    show ?thesis
      using IH kind Number by (simp add: ac_simps)
  next
    case (Integer i)
    have kind: "indexAt (bs, spare) off = Inr 3"
      using Cons.prems(1) Integer by (intro indexAt_drop) simp
    show ?thesis
      using IH kind Integer by (simp add: ac_simps)
  qed
qed

lemma readConsts_encode:
  assumes "drop off bs = concat (map encodeConst cs) @ rest"
    and "list_all constFits cs" and "list_all constExact cs"
  shows "readConsts (bs, spare) (length cs) off
     = Inr (cs, off + length (concat (map encodeConst cs)))"
  using assms
proof (induction cs arbitrary: off)
  case Nil
  then show ?case by simp
next
  case (Cons v cs)
  have off_le: "off < length bs"
    using Cons.prems(1) by (cases v) (auto dest: drop_nonempty_le)
  have next_off: "drop (off + length (encodeConst v)) bs = concat (map encodeConst cs) @ rest"
    using Cons.prems(1) by (intro drop_append_eq) simp
  have IH: "readConsts (bs, spare) (length cs) (off + length (encodeConst v))
      = Inr (cs, off + length (encodeConst v) + length (concat (map encodeConst cs)))"
    using Cons.prems(2,3) by (intro Cons.IH [OF next_off]) simp_all
  show ?case
  proof (cases v)
    case (Text s)
    have kind: "indexAt (bs, spare) off = Inr 1"
      using Cons.prems(1) Text by (intro indexAt_drop) simp
    have d1: "drop (off + 1) bs = PutUint32 (word_of_nat (length s))
        @ (stringToBytes s @ concat (map encodeConst cs) @ rest)"
      using Cons.prems(1) Text drop_append_eq [of off bs "[1]"] by simp
    then have len: "readUint32 (bs, spare) (off + 1) = Inr (word_of_nat (length s))"
      by (rule readUint32_drop)
    have u: "unat (word_of_nat (length s) :: 32 word) = length s"
      using Cons.prems(2) Text by (simp add: unat_word_of_nat32)
    have d5: "drop (off + 1 + 4) bs = stringToBytes s @ (concat (map encodeConst cs) @ rest)"
      using drop_append_eq [OF d1] by simp
    have "4 \<le> length (drop (off + 1) bs)"
      using d1 by simp
    then have le5: "off + 1 + 4 \<le> length bs"
      by simp
    have "sliceRange (bs, spare) (off + 1 + 4) (off + 1 + 4 + length (stringToBytes s))
        = Inr (stringToBytes s)"
      by (rule sliceRange_drop [OF d5 le5])
    then have str: "sliceRange (bs, spare) (off + 1 + 4) (off + 1 + 4 + length s)
        = Inr (stringToBytes s)"
      by simp
    show ?thesis
      using IH kind len u str Text by (simp add: ac_simps)
  next
    case (Number f)
    have kind: "indexAt (bs, spare) off = Inr 2"
      using Cons.prems(1) Number by (intro indexAt_drop) simp
    have "drop (off + 1) bs = PutUint64 f @ (concat (map encodeConst cs) @ rest)"
      using Cons.prems(1) Number drop_append_eq [of off bs "[2]"] by simp
    then have bits: "readUint64 (bs, spare) (off + 1) = Inr f"
      by (rule readUint64_drop)
    show ?thesis
      using IH kind bits Number by (simp add: ac_simps)
  next
    case (Integer i)
    have kind: "indexAt (bs, spare) off = Inr 3"
      using Cons.prems(1) Integer by (intro indexAt_drop) simp
    have "drop (off + 1) bs = PutUint32 (word_of_int i) @ (concat (map encodeConst cs) @ rest)"
      using Cons.prems(1) Integer drop_append_eq [of off bs "[3]"] by simp
    then have w: "readUint32 (bs, spare) (off + 1) = Inr (word_of_int i)"
      by (rule readUint32_drop)
    have u: "uint (word_of_int i :: 32 word) = i"
      using Cons.prems(3) Integer by (simp add: uint_word_of_int)
    show ?thesis
      using IH kind w u Integer by (simp add: ac_simps)
  qed
qed


lemma length_encodeChunk:
  "length (encodeChunk ch)
     = 4 + length (concat (map encodeConst (fst ch))) + 4 + length (snd ch)"
  by (simp add: encodeChunk_def)

lemma skipFunctions_encode:
  assumes "drop off bs = concat (map encodeChunk fns) @ rest" and "list_all chunkFits fns"
  shows "skipFunctions (bs, spare) (length fns) off
     = Inr (off + length (concat (map encodeChunk fns)))"
  using assms
proof (induction fns arbitrary: off)
  case Nil
  then show ?case by simp
next
  case (Cons f fns)
  obtain cs cd where f: "f = (cs, cd)"
    by (cases f)
  have fits: "length cs < 2 ^ 32" "list_all constFits cs" "length cd < 2 ^ 32"
    using Cons.prems(2) f by (simp_all add: chunkFits_def)
  have d0: "drop off bs = PutUint32 (word_of_nat (length cs))
      @ (concat (map encodeConst cs) @ PutUint32 (word_of_nat (length cd)) @ cd
         @ concat (map encodeChunk fns) @ rest)"
  proof -
    have "encodeChunk f = PutUint32 (word_of_nat (length cs)) @ concat (map encodeConst cs)
        @ PutUint32 (word_of_nat (length cd)) @ cd"
      by (simp add: encodeChunk_def f)
    then show ?thesis
      using Cons.prems(1) by simp
  qed
  have cCount: "readUint32 (bs, spare) off = Inr (word_of_nat (length cs))"
    using d0 by (rule readUint32_drop)
  have d4: "drop (off + 4) bs = concat (map encodeConst cs)
      @ (PutUint32 (word_of_nat (length cd)) @ cd @ concat (map encodeChunk fns) @ rest)"
    using drop_append_eq [OF d0] by simp
  have skip: "skipConsts (bs, spare) (length cs) (off + 4)
      = Inr (off + 4 + length (concat (map encodeConst cs)))"
    by (rule skipConsts_encode [OF d4 fits(2)])
  let ?off1 = "off + 4 + length (concat (map encodeConst cs))"
  have d1: "drop ?off1 bs = PutUint32 (word_of_nat (length cd))
      @ (cd @ concat (map encodeChunk fns) @ rest)"
    using drop_append_eq [OF d4] by simp
  have l: "readUint32 (bs, spare) ?off1 = Inr (word_of_nat (length cd))"
    using d1 by (rule readUint32_drop)
  have d2: "drop (?off1 + 4) bs = cd @ (concat (map encodeChunk fns) @ rest)"
    using drop_append_eq [OF d1] by simp
  have d3: "drop (?off1 + 4 + length cd) bs = concat (map encodeChunk fns) @ rest"
    using drop_append_eq [OF d2] by simp
  have IH: "skipFunctions (bs, spare) (length fns) (?off1 + 4 + length cd)
      = Inr (?off1 + 4 + length cd + length (concat (map encodeChunk fns)))"
    using Cons.prems(2) by (intro Cons.IH [OF d3]) simp
  show ?case
    using cCount skip l IH fits(1,3) f
    by (simp add: unat_word_of_nat32 length_encodeChunk ac_simps)
qed

lemma scanModule_encodeModule:
  assumes "moduleOk m"
  shows "scanModule (encodeModule m, spare)
     = Inr (fst (mainChunk m), length (encodeModule m) - length (snd (mainChunk m)),
            length (snd (mainChunk m)))"
proof -
  obtain cs cd where main: "mainChunk m = (cs, cd)"
    by (cases "mainChunk m")
  let ?bs = "encodeModule m"
  let ?fns = "concat (map encodeChunk (fnTable m))"
  have fits: "length (fnTable m) < 2 ^ 32" "list_all chunkFits (fnTable m)"
    "length cs < 2 ^ 32" "list_all constFits cs" "length cd < 2 ^ 32" "list_all constExact cs"
    using assms main by (simp_all add: moduleOk_def chunkFits_def)
  have bs: "?bs = [0x4B, 0x42, 0x43, 2] @ PutUint32 (word_of_nat (length (fnTable m)))
      @ ?fns @ PutUint32 (word_of_nat (length cs)) @ concat (map encodeConst cs)
      @ PutUint32 (word_of_nat (length cd)) @ cd"
    by (simp add: encodeModule_def encodeChunk_def main)
  have magic: "sliceRange (?bs, spare) 0 3 = Inr [0x4B, 0x42, 0x43]"
    by (simp add: sliceRange_def bs)
  have version: "indexAt (?bs, spare) 3 = Inr 2"
    by (simp add: indexAt_def bs)
  have d4: "drop 4 ?bs = PutUint32 (word_of_nat (length (fnTable m)))
      @ (?fns @ PutUint32 (word_of_nat (length cs)) @ concat (map encodeConst cs)
         @ PutUint32 (word_of_nat (length cd)) @ cd)"
    by (simp add: bs)
  have fnCount: "readUint32 (?bs, spare) 4 = Inr (word_of_nat (length (fnTable m)))"
    using d4 by (rule readUint32_drop)
  have d8: "drop 8 ?bs = ?fns @ (PutUint32 (word_of_nat (length cs)) @ concat (map encodeConst cs)
         @ PutUint32 (word_of_nat (length cd)) @ cd)"
    using drop_append_eq [OF d4] by simp
  have skip: "skipFunctions (?bs, spare) (length (fnTable m)) 8 = Inr (8 + length ?fns)"
    by (rule skipFunctions_encode [OF d8 fits(2)])
  let ?off = "8 + length ?fns"
  have doff: "drop ?off ?bs = PutUint32 (word_of_nat (length cs))
      @ (concat (map encodeConst cs) @ PutUint32 (word_of_nat (length cd)) @ cd)"
    using drop_append_eq [OF d8] by simp
  have cCount: "readUint32 (?bs, spare) ?off = Inr (word_of_nat (length cs))"
    using doff by (rule readUint32_drop)
  have dc: "drop (?off + 4) ?bs = concat (map encodeConst cs)
      @ (PutUint32 (word_of_nat (length cd)) @ cd)"
    using drop_append_eq [OF doff] by simp
  have rd: "readConsts (?bs, spare) (length cs) (?off + 4)
      = Inr (cs, ?off + 4 + length (concat (map encodeConst cs)))"
    by (rule readConsts_encode [OF dc fits(4) fits(6)])
  let ?off1 = "?off + 4 + length (concat (map encodeConst cs))"
  have d1: "drop ?off1 ?bs = PutUint32 (word_of_nat (length cd)) @ cd"
    using drop_append_eq [OF dc] by simp
  have codeLen: "readUint32 (?bs, spare) ?off1 = Inr (word_of_nat (length cd))"
    using d1 by (rule readUint32_drop)
  have len: "length ?bs = ?off1 + 4 + length cd"
    by (simp add: bs)
  show ?thesis
    using magic version fnCount skip cCount rd codeLen fits(1,3,5) len
    by (simp add: scanModule_def unat_word_of_nat32 main)
qed

lemma loadModule_encodeModule:
  assumes "moduleOk m"
  shows "loadModule r (encodeModule m, spare) vm
     = Inr (vm\<lparr>constants := r, pools := (pools vm)(r := fst (mainChunk m)),
              code := snd (mainChunk m), ip := 0, sp := 0\<rparr>)"
proof -
  let ?bs = "encodeModule m"
  let ?cd = "snd (mainChunk m)"
  define pre where "pre = [0x4B, 0x42, 0x43, 2] @ PutUint32 (word_of_nat (length (fnTable m)))
      @ concat (map encodeChunk (fnTable m))
      @ PutUint32 (word_of_nat (length (fst (mainChunk m))))
      @ concat (map encodeConst (fst (mainChunk m)))
      @ PutUint32 (word_of_nat (length (snd (mainChunk m))))"
  have bs: "?bs = pre @ ?cd"
    by (simp add: pre_def encodeModule_def encodeChunk_def)
  have d: "drop (length ?bs - length ?cd) ?bs = ?cd @ []"
    by (simp add: bs)
  have "sliceRange (?bs, spare) (length ?bs - length ?cd) (length ?bs - length ?cd + length ?cd)
      = Inr ?cd"
    by (rule sliceRange_drop [OF d]) simp
  then show ?thesis
    by (simp add: loadModule_def scanModule_encodeModule [OF assms])
qed

lemma New_encodeModule:
  assumes "moduleOk m"
  shows "New (encodeModule m, spare)
     = Inr \<lparr>constants = 0, code = snd (mainChunk m), ip = 0, sp = 0, stack = [],
            callStack = [], pools = (\<lambda>r. [])(0 := fst (mainChunk m))\<rparr>"
  by (simp add: New_def loadModule_encodeModule [OF assms])

text \<open>The machine that \<^verbatim>\<open>New\<close> makes of what \<^verbatim>\<open>Emit\<close> returns runs the main chunk.\<close>

lemma New_Emit:
  assumes "emitStmts NewChunk topLevel = Inr c"
    and "moduleOk \<lparr>fnTable = [], mainChunk = (Constants (emit c OP_RET), Code (emit c OP_RET))\<rparr>"
  shows "\<exists>bs. Emit topLevel = Inr bs \<and> New (bs, spare) = Inr (chunkVM (emit c OP_RET))"
  using assms(1) New_encodeModule [OF assms(2), of spare]
  by (simp add: Emit_def chunkVM_def Let_def)

text \<open>An integer constant below zero comes back as its unsigned 32-bit value.\<close>

lemma negative_integer_constant:
  "New (encodeModule \<lparr>fnTable = [], mainChunk = ([Integer (- 1)], [OP_RET])\<rparr>, [])
     = Inr \<lparr>constants = 0, code = [OP_RET], ip = 0, sp = 0, stack = [], callStack = [],
            pools = (\<lambda>r. [])(0 := [Integer 4294967295])\<rparr>"
proof -
  let ?bs = "encodeModule \<lparr>fnTable = [], mainChunk = ([Integer (- 1)], [OP_RET])\<rparr>"
  have bs: "?bs = [0x4B, 0x42, 0x43, 2] @ PutUint32 0 @ PutUint32 1 @ [3] @ PutUint32 (- 1)
      @ PutUint32 1 @ [OP_RET]"
    by (simp add: encodeModule_def encodeChunk_def)
  have magic: "sliceRange (?bs, []) 0 3 = Inr [0x4B, 0x42, 0x43]"
    by (simp add: sliceRange_def bs)
  have version: "indexAt (?bs, []) 3 = Inr 2"
    by (simp add: indexAt_def bs)
  have fnCount: "readUint32 (?bs, []) 4 = Inr 0"
    by (rule readUint32_drop) (simp add: bs)
  have cCount: "readUint32 (?bs, []) 8 = Inr 1"
    by (rule readUint32_drop) (simp add: bs)
  have kind: "indexAt (?bs, []) 12 = Inr 3"
    by (rule indexAt_drop) (simp add: bs)
  have v: "readUint32 (?bs, []) 13 = Inr (- 1)"
    by (rule readUint32_drop) (simp add: bs)
  have codeLen: "readUint32 (?bs, []) 17 = Inr 1"
    by (rule readUint32_drop) (simp add: bs)
  have mainCode: "sliceRange (?bs, []) 21 22 = Inr [OP_RET]"
    using sliceRange_drop [of 21 ?bs "[OP_RET]" "[]" "[]"] by (simp add: bs)
  have u: "uint (- 1 :: 32 word) = 4294967295"
    by (simp add: uint_word_ariths)
  have scan: "scanModule (?bs, []) = Inr ([Integer 4294967295], 21, 1)"
    by (simp add: scanModule_def magic version fnCount cCount kind v codeLen u)
  show ?thesis
    by (simp add: New_def loadModule_def scan mainCode)
qed

section \<open>Supporting runs and consequences\<close>

text \<open>With the limit 0 the guard lets the body run: after one turn of the loop, fifteen
  instructions, the body has stored 5 and the induction variable is 1.\<close>

lemma f64_le_0_0: "f64_le 0 0 = True"
  by (simp add: f64_defs)

lemma f64_eq_1_0: "f64_eq 0x3FF0000000000000 0 = False"
  by (simp add: f64_defs)

lemma f64_add_0_1: "f64_add 0 0x3FF0000000000000 = 0x3FF0000000000000"
  by (simp add: f64_defs)

lemma parseNumber_0: "parseNumber ''0'' = 0"
  by (simp add: parseNumber_def isDigit_def f64_defs)

lemma counted_loop_zero_limit_runs_body:
  "\<exists>c vm. emitStmts NewChunk [ForStmt ''i'' (NumberExpr ''0'') [LetStmt ''k'' (NumberExpr ''5'')]] = Inr c
     \<and> steps lf 15 (chunkVM (emit c OP_RET)) = Inr (Continue vm)
     \<and> ip vm = 20 \<and> stack vm = []
     \<and> pools vm 0 ! 2 = Number (f64_of_nat 1)
     \<and> pools vm 0 ! 5 = Number (f64_of_nat 5)"
  unfolding f64_literals
  by (simp add: emit_defs parseNumber_0 parseNumber_5 run_defs f64_le_0_0 f64_eq_1_0 f64_add_0_1
      boolToFloat_def)

text \<open>The code of a call does not depend on the callee.\<close>

lemma call_ignores_callee:
  "emitExpr c (CallExpr callee args) = emitExpr c (CallExpr callee' args)"
  by simp

text \<open>An identifier gets a new pool entry wherever it stands.\<close>

lemma identifier_appends_constant:
  "emitExpr c (IdentExpr name)
     = Inr (c\<lparr>Constants := Constants c @ [Text name],
              Code := Code c @ [OP_LOAD] @ PutUint32 (word_of_nat (length (Constants c)))\<rparr>)"
  by (simp add: emit_def emitInt_def addConst_def Let_def)


text \<open>The truncation of an encoded module.\<close>

lemma truncated_scan_panics:
  assumes "scanModule (bs, []) = Inr (cs, off, codeLen)"
    and "off + codeLen = length bs"
    and "k < length bs"
  shows "boundsPanic (New (take k bs, []))"
proof -
  from scanModule_take [OF assms(1), of k] show ?thesis
  proof
    assume "scanModule (take k bs, []) = Inr (cs, off, codeLen)"
    moreover have "sliceRange (take k bs, []) off (off + codeLen) = Inl SliceBounds"
      using assms(2,3) by (simp add: sliceRange_def)
    ultimately show ?thesis
      by (simp add: New_def loadModule_def)
  next
    assume "boundsPanic (scanModule (take k bs, []))"
    then show ?thesis
      by (auto simp add: New_def loadModule_def split: sum.splits)
  qed
qed


lemma encoded_module_truncated:
  assumes "moduleOk m" and "k < length (encodeModule m)"
  shows "boundsPanic (New (take k (encodeModule m), []))"
proof -
  have "length (snd (mainChunk m)) \<le> length (encodeModule m)"
    by (simp add: encodeModule_def encodeChunk_def)
  then have "length (encodeModule m) - length (snd (mainChunk m)) + length (snd (mainChunk m))
      = length (encodeModule m)"
    by simp
  then show ?thesis
    using scanModule_encodeModule [OF assms(1), of "[]"] assms(2)
    by (intro truncated_scan_panics)
qed

section \<open>The claims\<close>



text \<open>
  C10: \<^verbatim>\<open>OP_STORE\<close> writes the popped value into the active constant pool in place,
  at the index of its operand, and an \<^verbatim>\<open>OP_LOAD\<close> or an \<^verbatim>\<open>OP_CONST\<close> of the same
  index that follows pushes the stored value, not the constant the module was encoded
  with: both read the pool that the store wrote.
  Here the machine stands before a store that is followed by a load or a push-constant
  of the same index \<open>w\<close>, the value \<open>v\<close> is on top of the stack and \<open>w\<close> is an index of
  the active pool.
\<close>

theorem store_then_load:
  assumes "code vm = pre @ [OP_STORE] @ PutUint32 w @ [op] @ PutUint32 w @ post"
    and "op = OP_LOAD \<or> op = OP_CONST"
    and "ip vm = int (length pre)"
    and "stack vm = st @ [v]"
    and "sp vm = int (length st) + 1"
    and "unat w < length (pools vm (constants vm))"
  shows "\<exists>vm1 vm2. step lf vm = Inr (Continue vm1) \<and> step lf vm1 = Inr (Continue vm2)
           \<and> constants vm1 = constants vm
           \<and> pools vm1 = (pools vm)(constants vm := (pools vm (constants vm))[unat w := v])
           \<and> stack vm1 = st
           \<and> pools vm2 = pools vm1 \<and> constants vm2 = constants vm
           \<and> stack vm2 = st @ [v] \<and> sp vm2 = sp vm
           \<and> ip vm2 = ip vm + 10"
proof -
  define vm1 where "vm1 = vm\<lparr>ip := ip vm + 5, sp := int (length st), stack := st,
      pools := (pools vm)(constants vm := (pools vm (constants vm))[unat w := v])\<rparr>"
  have s1: "step lf vm = Inr (Continue vm1)"
    unfolding vm1_def
    by (rule step_STORE_at [where pre = pre and post = "[op] @ PutUint32 w @ post"])
       (simp_all add: assms)
  have s2: "step lf vm1 =
      Inr (Continue (push (pools vm1 (constants vm1) ! unat w) (vm1\<lparr>ip := ip vm1 + 5\<rparr>)))"
    by (rule step_LOAD_CONST_at
          [where pre = "pre @ [OP_STORE] @ PutUint32 w" and post = post and op = op])
       (simp_all add: vm1_def assms)
  have "step lf vm = Inr (Continue vm1) \<and>
      step lf vm1 =
        Inr (Continue (push (pools vm1 (constants vm1) ! unat w) (vm1\<lparr>ip := ip vm1 + 5\<rparr>)))"
    using s1 s2 by simp
  moreover have "pools vm1 (constants vm1) ! unat w = v"
    using assms(6) by (simp add: vm1_def)
  ultimately show ?thesis
    using assms(5)
    by (intro exI [of _ vm1] exI [of _ "push v (vm1\<lparr>ip := ip vm1 + 5\<rparr>)"])
       (simp add: vm1_def push_def)
qed

theorem store_then_load_witness:
  "\<exists>vm1 vm2.
     step (\<lambda>i. Inl (UnknownFunction i))
       \<lparr>constants = 0, code = [OP_STORE, 1, 0, 0, 0, OP_CONST, 1, 0, 0, 0], ip = 0, sp = 1,
        stack = [Text ''new''], callStack = [],
        pools = (\<lambda>r. [Number 0, Text ''old''])\<rparr> = Inr (Continue vm1)
     \<and> step (\<lambda>i. Inl (UnknownFunction i)) vm1 = Inr (Continue vm2)
     \<and> pools vm1 0 = [Number 0, Text ''new'']
     \<and> stack vm1 = []
     \<and> stack vm2 = [Text ''new'']"
proof -
  have w: "PutUint32 1 = [1, 0, 0, 0]"
    by (simp add: PutUint32_def)
  have "\<exists>vm1 vm2.
     step (\<lambda>i. Inl (UnknownFunction i))
       \<lparr>constants = 0, code = [OP_STORE, 1, 0, 0, 0, OP_CONST, 1, 0, 0, 0], ip = 0, sp = 1,
        stack = [Text ''new''], callStack = [],
        pools = (\<lambda>r. [Number 0, Text ''old''])\<rparr> = Inr (Continue vm1)
     \<and> step (\<lambda>i. Inl (UnknownFunction i)) vm1 = Inr (Continue vm2)
     \<and> constants vm1 = 0
     \<and> pools vm1 = (\<lambda>r. [Number 0, Text ''old''])(0 := [Number 0, Text ''new''])
     \<and> stack vm1 = []
     \<and> pools vm2 = pools vm1 \<and> constants vm2 = 0
     \<and> stack vm2 = [Text ''new''] \<and> sp vm2 = 1 \<and> ip vm2 = 10"
    using store_then_load [where pre = "[]" and w = 1 and op = OP_CONST and post = "[]"
        and st = "[]" and v = "Text ''new''" and lf = "\<lambda>i. Inl (UnknownFunction i)"
        and vm = "\<lparr>constants = 0, code = [OP_STORE, 1, 0, 0, 0, OP_CONST, 1, 0, 0, 0],
          ip = 0, sp = 1, stack = [Text ''new''], callStack = [],
          pools = (\<lambda>r. [Number 0, Text ''old''])\<rparr>"]
    by (simp add: w)
  then obtain vm1 vm2 where
    "step (\<lambda>i. Inl (UnknownFunction i))
       \<lparr>constants = 0, code = [OP_STORE, 1, 0, 0, 0, OP_CONST, 1, 0, 0, 0], ip = 0, sp = 1,
        stack = [Text ''new''], callStack = [],
        pools = (\<lambda>r. [Number 0, Text ''old''])\<rparr> = Inr (Continue vm1)"
    and "step (\<lambda>i. Inl (UnknownFunction i)) vm1 = Inr (Continue vm2)"
    and "pools vm1 = (\<lambda>r. [Number 0, Text ''old''])(0 := [Number 0, Text ''new''])"
    and "stack vm1 = []" and "stack vm2 = [Text ''new'']"
    by blast
  then show ?thesis
    by (intro exI [of _ vm1] exI [of _ vm2]) simp
qed


text \<open>
  C1: a counted loop \<^verbatim>\<open>for i 3\<close> is claimed to run its body three times, the guard
  being compiled to "if the induction variable has reached the limit, leave the loop".
  The emitter writes \<^verbatim>\<open>OP_GE\<close> and then \<^verbatim>\<open>OP_JMPF\<close>, which leaves the loop when the
  comparison is false, that is while the variable is below the limit. For the program
  \<^verbatim>\<open>for i 3: let k = 5\<close>, after eight turns of the machine's loop the machine stands
  behind the loop, at the final \<^verbatim>\<open>OP_RET\<close>: the induction variable is 0 and the slot
  that the body stores to still holds its initial constant, so the body has not run; the
  next turn panics on the empty stack.
\<close>

theorem counted_loop_skips_body:
  "\<exists>c vm. emitStmts NewChunk [ForStmt ''i'' (NumberExpr ''3'') [LetStmt ''k'' (NumberExpr ''5'')]] = Inr c
     \<and> Constants c ! 5 = Text ''k''
     \<and> steps lf 8 (chunkVM (emit c OP_RET)) = Inr (Continue vm)
     \<and> code vm = Code c @ [OP_RET]
     \<and> ip vm = int (length (Code c)) \<and> stack vm = [] \<and> sp vm = 0
     \<and> pools vm 0 ! 2 = Number (f64_of_nat 0)
     \<and> pools vm 0 ! 5 = Text ''k''
     \<and> step lf vm = Inl StackUnderflow"
  unfolding f64_literals
  by (simp add: emit_defs parseNumber_3 parseNumber_5 run_defs f64_le_3_0 f64_eq_0_0 boolToFloat_def)

theorem counted_loop_skips_body_witness:
  "\<exists>c. emitStmts NewChunk [ForStmt ''i'' (NumberExpr ''3'') [LetStmt ''k'' (NumberExpr ''5'')]] = Inr c
     \<and> Run (\<lambda>i. Inl (UnknownFunction i)) 9 (chunkVM (emit c OP_RET)) = Some (Inl StackUnderflow)"
proof -
  let ?lf = "\<lambda>i. Inl (UnknownFunction i)"
  obtain c vm where
    c: "emitStmts NewChunk [ForStmt ''i'' (NumberExpr ''3'') [LetStmt ''k'' (NumberExpr ''5'')]] = Inr c"
    and s: "steps ?lf 8 (chunkVM (emit c OP_RET)) = Inr (Continue vm)"
    and vm: "code vm = Code c @ [OP_RET]" "ip vm = int (length (Code c))"
      "step ?lf vm = Inl StackUnderflow"
    using counted_loop_skips_body [of ?lf] by blast
  have "Run ?lf (8 + 1) (chunkVM (emit c OP_RET)) = Run ?lf 1 vm"
    using s by (rule Run_steps)
  also have "\<dots> = Some (Inl StackUnderflow)"
    using vm by simp
  finally show ?thesis
    using c by simp
qed


text \<open>
  C5: every occurrence of a name is claimed to resolve to one pool slot. \<^verbatim>\<open>addConst\<close>
  appends whatever it is given and \<^verbatim>\<open>Names\<close> is never consulted: in
  \<^verbatim>\<open>let x = 1\<close> followed by \<^verbatim>\<open>return x\<close> the store goes to slot 1 and the load reads
  slot 2, each holding the name.
\<close>

theorem identifier_slots_differ:
  "emitStmts NewChunk [LetStmt ''x'' (NumberExpr ''1''), ReturnStmt (IdentExpr ''x'')]
     = Inr \<lparr>Code = [OP_CONST, 0, 0, 0, 0, OP_STORE, 1, 0, 0, 0, OP_LOAD, 2, 0, 0, 0, OP_RET],
            Constants = [Number (f64_of_nat 1), Text ''x'', Text ''x''],
            Names = Map.empty\<rparr>"
  unfolding f64_literals
  by (simp add: emit_defs parseNumber_1)

theorem identifier_slots_differ_witness:
  "\<exists>c vm. emitStmts NewChunk [LetStmt ''x'' (NumberExpr ''1''), ReturnStmt (IdentExpr ''x'')] = Inr c
     \<and> steps (\<lambda>i. Inl (UnknownFunction i)) 4 (chunkVM c) = Inr (Return (Some (Text ''x'')) vm)"
  unfolding identifier_slots_differ f64_literals
  by (simp add: run_defs)


text \<open>
  C6: the call opcode takes the callee's identifier from the top of the stack, and the
  emitted code is claimed to have put it there. The emitter writes the code of the
  arguments and the opcode with their count; nothing is emitted for the callee. When
  \<^verbatim>\<open>f(7)\<close> runs, whatever \<open>f\<close> is, the machine pops the argument 7 as the identifier
  and asks the loader for function 7; if there is one, the stack is one value short of
  the declared argument and the copy of the arguments reads below the stack.
\<close>

theorem call_pops_last_argument:
  "\<exists>c. emitStmts NewChunk [ExprStmt (CallExpr callee [NumberExpr ''7''])] = Inr c
     \<and> Code c = [OP_CONST, 0, 0, 0, 0, OP_CALL, 1, 0, 0, 0, OP_POP]
     \<and> Constants c = [Number (f64_of_nat 7)]
     \<and> steps lf 2 (chunkVM (emit c OP_RET))
         = Inl (case lf 7 of Inl e \<Rightarrow> e | Inr fn \<Rightarrow> IndexOutOfRange)"
  unfolding f64_literals
  by (simp add: emit_defs parseNumber_7 run_defs f64_to_int_7 split: sum.splits)

theorem call_pops_last_argument_witness:
  "\<exists>c. emitStmts NewChunk [ExprStmt (CallExpr (IdentExpr ''f'') [NumberExpr ''7''])] = Inr c
     \<and> steps (\<lambda>i. if i = 0 then Inr ([OP_RET], 1) else Inl (UnknownFunction i)) 2
           (chunkVM (emit c OP_RET)) = Inl (UnknownFunction 7)"
  using call_pops_last_argument [of "IdentExpr ''f''"
      "\<lambda>i. if i = 0 then Inr ([OP_RET], 1) else Inl (UnknownFunction i)"]
  by auto


text \<open>
  C2: a call followed by the callee's return is claimed to leave the stack one deeper
  than before the arguments were pushed, the slots below untouched. The main code here
  pushes 7, the argument 5 and the identifier 0 of a function that returns at once,
  calls it with one argument and returns. After the call and the return the machine is
  back in the caller, \<^verbatim>\<open>sp\<close> is 2, but the stack holds the single value 7:
  \<^verbatim>\<open>callFunction\<close> sets \<^verbatim>\<open>sp\<close> to 0 and pushes the arguments again behind the
  caller's slots, so the callee's \<^verbatim>\<open>pop\<close> reads and cuts the stack at the caller's end.
  The final \<^verbatim>\<open>OP_RET\<close> of the main code then reads behind the stack and panics.
\<close>

theorem call_return_truncates_stack:
  "steps (\<lambda>i. if i = 0 then Inr ([OP_RET], 1) else Inl (UnknownFunction i)) 5
     (chunkVM \<lparr>Code = [OP_CONST, 0, 0, 0, 0, OP_CONST, 1, 0, 0, 0, OP_CONST, 2, 0, 0, 0,
                       OP_CALL, 1, 0, 0, 0, OP_RET],
               Constants = [Number (f64_of_nat 7), Number (f64_of_nat 5), Number (f64_of_nat 0)],
               Names = Map.empty\<rparr>)
   = Inr (Continue \<lparr>constants = 0,
        code = [OP_CONST, 0, 0, 0, 0, OP_CONST, 1, 0, 0, 0, OP_CONST, 2, 0, 0, 0,
                OP_CALL, 1, 0, 0, 0, OP_RET],
        ip = 20, sp = 2, stack = [Number (f64_of_nat 7)], callStack = [],
        pools = (\<lambda>r. [])(0 := [Number (f64_of_nat 7), Number (f64_of_nat 5),
                                  Number (f64_of_nat 0)])\<rparr>)
   \<and> steps (\<lambda>i. if i = 0 then Inr ([OP_RET], 1) else Inl (UnknownFunction i)) 6
     (chunkVM \<lparr>Code = [OP_CONST, 0, 0, 0, 0, OP_CONST, 1, 0, 0, 0, OP_CONST, 2, 0, 0, 0,
                       OP_CALL, 1, 0, 0, 0, OP_RET],
               Constants = [Number (f64_of_nat 7), Number (f64_of_nat 5), Number (f64_of_nat 0)],
               Names = Map.empty\<rparr>)
   = Inl IndexOutOfRange"
  unfolding f64_literals
  by (simp add: run_defs f64_to_int_0)

theorem call_return_truncates_stack_witness:
  "Run (\<lambda>i. if i = 0 then Inr ([OP_RET], 1) else Inl (UnknownFunction i)) 6
     (chunkVM \<lparr>Code = [OP_CONST, 0, 0, 0, 0, OP_CONST, 1, 0, 0, 0, OP_CONST, 2, 0, 0, 0,
                       OP_CALL, 1, 0, 0, 0, OP_RET],
               Constants = [Number (f64_of_nat 7), Number (f64_of_nat 5), Number (f64_of_nat 0)],
               Names = Map.empty\<rparr>)
   = Some (Inl IndexOutOfRange)"
proof -
  let ?lf = "\<lambda>i. if i = 0 then Inr ([OP_RET], 1) else Inl (UnknownFunction i)"
  let ?vm = "chunkVM \<lparr>Code = [OP_CONST, 0, 0, 0, 0, OP_CONST, 1, 0, 0, 0, OP_CONST, 2, 0, 0, 0,
                       OP_CALL, 1, 0, 0, 0, OP_RET],
               Constants = [Number (f64_of_nat 7), Number (f64_of_nat 5), Number (f64_of_nat 0)],
               Names = Map.empty\<rparr>"
  let ?vm5 = "\<lparr>constants = 0,
        code = [OP_CONST, 0, 0, 0, 0, OP_CONST, 1, 0, 0, 0, OP_CONST, 2, 0, 0, 0,
                OP_CALL, 1, 0, 0, 0, OP_RET],
        ip = 20, sp = 2, stack = [Number (f64_of_nat 7)], callStack = [],
        pools = (\<lambda>r. [])(0 := [Number (f64_of_nat 7), Number (f64_of_nat 5),
                                  Number (f64_of_nat 0)])\<rparr>"
  have s5: "steps ?lf 5 ?vm = Inr (Continue ?vm5)"
    using call_return_truncates_stack by blast
  have "Run ?lf (5 + 1) ?vm = Run ?lf 1 ?vm5"
    using s5 by (rule Run_steps)
  also have "\<dots> = Some (Inl IndexOutOfRange)"
    by (simp add: vm_defs)
  finally show ?thesis
    by simp
qed


text \<open>
  C7: a call with \<open>n\<close> arguments is claimed to save the stack size minus \<open>n\<close> as the
  base of the new frame and to leave the callee with exactly its \<open>n\<close> arguments as its
  operand stack, in place at that base, nothing being copied. \<^verbatim>\<open>callFunction\<close> saves
  that base, and \<^verbatim>\<open>returnFromFunction\<close> goes back to it, but in between
  \<^verbatim>\<open>callFunction\<close> sets \<^verbatim>\<open>sp\<close> to 0 and pushes the arguments again. Called with one
  argument on the stack \<open>[7, 5]\<close>, it leaves the stack \<open>[7, 5, 5]\<close> with \<^verbatim>\<open>sp\<close> at 1: a
  value has been copied, and the one slot that the callee's \<^verbatim>\<open>pop\<close> addresses holds the
  caller's 7, not the argument 5.
\<close>

theorem call_misplaces_arguments:
  "callFunction (\<lambda>i. if i = 0 then Inr ([OP_RET], 1) else Inl (UnknownFunction i)) 0 1
     \<lparr>constants = 0, code = [OP_CALL, 1, 0, 0, 0], ip = 5, sp = 2,
      stack = [Number (f64_of_nat 7), Number (f64_of_nat 5)], callStack = [], pools = (\<lambda>r. [])\<rparr>
   = Inr \<lparr>constants = 1, code = [OP_RET], ip = 0, sp = 1,
      stack = [Number (f64_of_nat 7), Number (f64_of_nat 5), Number (f64_of_nat 5)],
      callStack = [\<lparr>ipBackup = 5, spBackup = 1, fcode = [OP_CALL, 1, 0, 0, 0], fconsts = 0\<rparr>],
      pools = (\<lambda>r. [])\<rparr>"
  by (simp add: callFunction_def push_def)

theorem call_misplaces_arguments_witness:
  "(case callFunction (\<lambda>i. if i = 0 then Inr ([OP_RET], 1) else Inl (UnknownFunction i)) 0 1
      \<lparr>constants = 0, code = [OP_CALL, 1, 0, 0, 0], ip = 5, sp = 2,
       stack = [Number (f64_of_nat 7), Number (f64_of_nat 5)], callStack = [],
       pools = (\<lambda>r. [])\<rparr> of
      Inl e \<Rightarrow> False
    | Inr vm' \<Rightarrow>
        map spBackup (callStack vm') = [1]
        \<and> length (stack vm') = 3
        \<and> pop vm' = Inr (Number (f64_of_nat 7), vm'\<lparr>sp := 0, stack := []\<rparr>))"
  unfolding call_misplaces_arguments
  by (simp add: pop_def)

text \<open>
  C9: the logical operators do not short-circuit. The code emitted for \<^verbatim>\<open>l && r\<close> or
  \<^verbatim>\<open>l || r\<close> is the code of the left operand, then the code of the right operand,
  then the one opcode, with nothing between them; the opcode pops both operand values,
  whatever the left one is, and pushes the result; and it needs both: with a single value
  on the stack it panics. (\<open>false_and_panics\<close> runs \<^verbatim>\<open>false && !"s"\<close>: the right operand
  is evaluated, and its type error ends the run.)
\<close>

theorem logical_operators_evaluate_both:
  assumes "op = ''&&'' \<or> op = ''||''"
    and "emitExpr c (BinaryExpr l op r) = Inr c'"
  shows "(\<exists>c1 c2 bl br.
      emitExpr c l = Inr c1 \<and> emitExpr c1 r = Inr c2
      \<and> Code c1 = Code c @ bl \<and> Code c2 = Code c1 @ br
      \<and> Code c' = Code c @ bl @ br @ [if op = ''&&'' then OP_AND else OP_OR]
      \<and> Constants c' = Constants c2)
    \<and> step lf (vm\<lparr>code := pre @ [if op = ''&&'' then OP_AND else OP_OR] @ post,
                   ip := int (length pre), sp := int (length st) + 2,
                   stack := st @ [Number a, Number b]\<rparr>)
        = Inr (Continue (vm\<lparr>code := pre @ [if op = ''&&'' then OP_AND else OP_OR] @ post,
                   ip := int (length pre) + 1, sp := int (length st) + 1,
                   stack := st @ [Number (boolToFloat
                     (if op = ''&&'' then \<not> f64_eq a 0 \<and> \<not> f64_eq b 0
                      else \<not> f64_eq a 0 \<or> \<not> f64_eq b 0))]\<rparr>))
    \<and> step lf (vm\<lparr>code := pre @ [if op = ''&&'' then OP_AND else OP_OR] @ post,
                   ip := int (length pre), sp := 1, stack := [Number a]\<rparr>)
        = Inl StackUnderflow"
proof -
  let ?opc = "if op = ''&&'' then OP_AND else OP_OR"
  have opc: "?opc = OP_AND \<or> ?opc = OP_OR"
    by simp
  obtain c1 where c1: "emitExpr c l = Inr c1"
    using assms(2) by (auto split: sum.splits)
  obtain c2 where c2: "emitExpr c1 r = Inr c2"
    using assms(2) c1 by (auto split: sum.splits)
  have c': "c' = emit c2 ?opc"
    using assms c1 c2 by (auto simp add: emitBinaryOp_def)
  obtain bl where bl: "Code c1 = Code c @ bl"
    using emitExpr_appends(1) [OF c1] by blast
  obtain br where br: "Code c2 = Code c1 @ br"
    using emitExpr_appends(1) [OF c2] by blast
  have layout: "\<exists>c1 c2 bl br.
      emitExpr c l = Inr c1 \<and> emitExpr c1 r = Inr c2
      \<and> Code c1 = Code c @ bl \<and> Code c2 = Code c1 @ br
      \<and> Code c' = Code c @ bl @ br @ [?opc]
      \<and> Constants c' = Constants c2"
    using c1 c2 c' bl br by (simp add: emit_def)
  have both: "step lf (vm\<lparr>code := pre @ [?opc] @ post,
                   ip := int (length pre), sp := int (length st) + 2,
                   stack := st @ [Number a, Number b]\<rparr>)
        = Inr (Continue (vm\<lparr>code := pre @ [?opc] @ post,
                   ip := int (length pre) + 1, sp := int (length st) + 1,
                   stack := st @ [Number (boolToFloat
                     (if ?opc = OP_AND then \<not> f64_eq a 0 \<and> \<not> f64_eq b 0
                      else \<not> f64_eq a 0 \<or> \<not> f64_eq b 0))]\<rparr>))"
    by (rule step_AND_OR [OF opc])
  have one: "step lf (vm\<lparr>code := pre @ [?opc] @ post,
                   ip := int (length pre), sp := 1, stack := [Number a]\<rparr>)
        = Inl StackUnderflow"
    by (rule step_AND_OR_one_operand [OF opc])
  have same: "(?opc = OP_AND) = (op = ''&&'')"
    by simp
  show ?thesis
    using layout both one unfolding same by blast
qed

theorem logical_operators_evaluate_both_witness:
  "\<exists>c1 c2 bl br.
      emitExpr NewChunk (BoolExpr False) = Inr c1
      \<and> emitExpr c1 (UnaryExpr ''!'' (StringExpr ''s'')) = Inr c2
      \<and> Code c1 = bl \<and> Code c2 = Code c1 @ br
      \<and> bl @ br @ [OP_AND] = [OP_CONST, 0, 0, 0, 0, OP_CONST, 1, 0, 0, 0, OP_NOT, OP_AND]"
proof -
  have e: "emitExpr NewChunk (BinaryExpr (BoolExpr False) ''&&'' (UnaryExpr ''!'' (StringExpr ''s'')))
      = Inr \<lparr>Code = [OP_CONST, 0, 0, 0, 0, OP_CONST, 1, 0, 0, 0, OP_NOT, OP_AND],
             Constants = [Number 0, Text ''s''], Names = Map.empty\<rparr>"
    by (simp add: emit_defs)
  have "\<exists>c1 c2 bl br.
      emitExpr NewChunk (BoolExpr False) = Inr c1
      \<and> emitExpr c1 (UnaryExpr ''!'' (StringExpr ''s'')) = Inr c2
      \<and> Code c1 = Code NewChunk @ bl \<and> Code c2 = Code c1 @ br
      \<and> Code \<lparr>Code = [OP_CONST, 0, 0, 0, 0, OP_CONST, 1, 0, 0, 0, OP_NOT, OP_AND],
             Constants = [Number 0, Text ''s''], Names = Map.empty\<rparr>
           = Code NewChunk @ bl @ br @ [if ''&&'' = ''&&'' then OP_AND else OP_OR]
      \<and> Constants \<lparr>Code = [OP_CONST, 0, 0, 0, 0, OP_CONST, 1, 0, 0, 0, OP_NOT, OP_AND],
             Constants = [Number 0, Text ''s''], Names = Map.empty\<rparr> = Constants c2"
    using logical_operators_evaluate_both [OF _ e] by blast
  then obtain c1 c2 bl br where
    "emitExpr NewChunk (BoolExpr False) = Inr c1"
    "emitExpr c1 (UnaryExpr ''!'' (StringExpr ''s'')) = Inr c2"
    "Code c1 = Code NewChunk @ bl" "Code c2 = Code c1 @ br"
    "Code \<lparr>Code = [OP_CONST, 0, 0, 0, 0, OP_CONST, 1, 0, 0, 0, OP_NOT, OP_AND],
             Constants = [Number 0, Text ''s''], Names = Map.empty\<rparr>
           = Code NewChunk @ bl @ br @ [if ''&&'' = ''&&'' then OP_AND else OP_OR]"
    by blast
  then show ?thesis
    by (intro exI [of _ c1] exI [of _ c2] exI [of _ bl] exI [of _ br]) (simp add: NewChunk_def)
qed


text \<open>
  C3, as amended: \<^verbatim>\<open>loadModule\<close> validates no length; what stops it on a short buffer
  is the bounds check of the Go runtime. Let a buffer without spare capacity hold a valid
  module, one that \<^verbatim>\<open>loadModule\<close> scans up to the last byte of the main code. Then on
  every proper prefix of it, again without spare capacity, \<^verbatim>\<open>New\<close> panics on an index
  or a slice bound: it reads nothing behind the buffer and does not succeed.
\<close>

theorem truncated_module_panics:
  assumes "scanModule (bs, []) = Inr (cs, off, codeLen)"
    and "off + codeLen = length bs"
    and "k < length bs"
  shows "boundsPanic (New (take k bs, []))"
  using assms by (rule truncated_scan_panics)

theorem truncated_module_panics_witness:
  "boundsPanic (New (take 16 [0x4B, 0x42, 0x43, 2, 0, 0, 0, 0, 0, 0, 0, 0, 1, 0, 0, 0, OP_RET], []))"
proof -
  have "scanModule ([0x4B, 0x42, 0x43, 2, 0, 0, 0, 0, 0, 0, 0, 0, 1, 0, 0, 0, OP_RET], [])
      = Inr ([], 16, 1)"
    by (simp add: scanModule_def sliceRange_def indexAt_def readUint32_def Uint32_def)
  then show ?thesis
    by (rule truncated_module_panics) simp_all
qed

text \<open>
  The claim as stated fails on a buffer with spare capacity, such as the first 16 bytes
  of a buffer of 17: the slice expression that takes the main code is checked against
  the capacity, so the module whose main code has been cut off loads, and its code is
  the byte behind the end of the buffer.
\<close>

theorem truncated_module_loads_counterexample:
  "New ([0x4B, 0x42, 0x43, 2, 0, 0, 0, 0, 0, 0, 0, 0, 1, 0, 0, 0], [OP_RET])
     = Inr \<lparr>constants = 0, code = [OP_RET], ip = 0, sp = 0, stack = [], callStack = [],
            pools = (\<lambda>r. [])(0 := [])\<rparr>"
  by (simp add: New_def loadModule_def scanModule_def sliceRange_def indexAt_def readUint32_def
      Uint32_def)


text \<open>
  C4, as amended: for a module whose counts and lengths fit the 32-bit fields of the
  format and whose main integer constants lie between 0 and \<open>2 ^ 32 - 1\<close>, loading the
  encoded module yields the main chunk exactly, every constant with its kind and value
  and every byte of the code, whatever spare capacity the buffer has. The function table
  is skipped, chunk by chunk, and is no part of the loaded machine.
\<close>

theorem main_chunk_round_trip:
  assumes "moduleOk m"
  shows "loadModule r (encodeModule m, spare) vm
     = Inr (vm\<lparr>constants := r, pools := (pools vm)(r := fst (mainChunk m)),
              code := snd (mainChunk m), ip := 0, sp := 0\<rparr>)"
  using assms by (rule loadModule_encodeModule)

theorem main_chunk_round_trip_witness:
  "loadModule 0
     (encodeModule \<lparr>fnTable = [([Text ''f''], [OP_RET])],
        mainChunk = ([Number (f64_of_nat 1), Text ''x'', Integer 3],
                     [OP_CONST, 0, 0, 0, 0, OP_RET])\<rparr>, [])
     \<lparr>constants = 0, code = [], ip = 0, sp = 0, stack = [], callStack = [], pools = (\<lambda>r. [])\<rparr>
   = Inr \<lparr>constants = 0, code = [OP_CONST, 0, 0, 0, 0, OP_RET], ip = 0, sp = 0, stack = [],
          callStack = [],
          pools = (\<lambda>r. [])(0 := [Number (f64_of_nat 1), Text ''x'', Integer 3])\<rparr>"
  using main_chunk_round_trip [of "\<lparr>fnTable = [([Text ''f''], [OP_RET])],
        mainChunk = ([Number (f64_of_nat 1), Text ''x'', Integer 3],
                     [OP_CONST, 0, 0, 0, 0, OP_RET])\<rparr>" 0 "[]"
      "\<lparr>constants = 0, code = [], ip = 0, sp = 0, stack = [], callStack = [],
        pools = (\<lambda>r. [])\<rparr>"]
  by (simp add: moduleOk_def chunkFits_def)

text \<open>
  The claim as stated fails on the function table: a module with one function and the
  module without it load to the same machine.
\<close>

theorem function_table_round_trip_counterexample:
  "New (encodeModule \<lparr>fnTable = [([], [OP_RET])], mainChunk = ([], [OP_RET])\<rparr>, [])
     = New (encodeModule \<lparr>fnTable = [], mainChunk = ([], [OP_RET])\<rparr>, [])
   \<and> \<lparr>fnTable = [([], [OP_RET])], mainChunk = ([], [OP_RET])\<rparr>
     \<noteq> \<lparr>fnTable = [], mainChunk = ([], [OP_RET])\<rparr>"
  by (simp add: New_encodeModule moduleOk_def chunkFits_def)

end
